theory Spec2Isabelle
  imports Main "HOL-Library.Sublist"
begin

section \<open>The install command of the component manager\<close>

text \<open>
  A shallow embedding of \<^verbatim>\<open>sc_component_manager_command_install.cpp\<close>: the four member
  functions \<^verbatim>\<open>Execute\<close>, \<^verbatim>\<open>ValidateComponent\<close>, \<^verbatim>\<open>InstallDependencies\<close> and
  \<^verbatim>\<open>DownloadComponent\<close>. The knowledge base is read through a record of its queries, the
  operating system through a record of its calls; every log line, directory creation,
  process and loader call is recorded in the state that the functions pass along. The
  loader writes into the knowledge base; its calls are recorded, and the queries of the
  command answer the same during one install.
\<close>

subsection \<open>std::string\<close>

text \<open>
  \<^verbatim>\<open>std::string::npos\<close> is \<open>None\<close>. \<open>find_str s t\<close> is \<^verbatim>\<open>s.find(t)\<close>, the first position where
  \<open>t\<close> occurs in \<open>s\<close>; \<open>rfind_str s t\<close> is \<^verbatim>\<open>s.rfind(t)\<close>, the last such position;
  \<open>rfind_char s c\<close> is \<^verbatim>\<open>s.rfind(c)\<close> for a character.
\<close>

fun find_str :: "string \<Rightarrow> string \<Rightarrow> nat option" where
  "find_str [] t = (if t = [] then Some 0 else None)"
| "find_str (c # cs) t =
     (if prefix t (c # cs) then Some 0 else map_option Suc (find_str cs t))"

fun rfind_str :: "string \<Rightarrow> string \<Rightarrow> nat option" where
  "rfind_str [] t = (if t = [] then Some 0 else None)"
| "rfind_str (c # cs) t =
     (case rfind_str cs t of
        Some i \<Rightarrow> Some (Suc i)
      | None \<Rightarrow> if prefix t (c # cs) then Some 0 else None)"

fun rfind_char :: "string \<Rightarrow> char \<Rightarrow> nat option" where
  "rfind_char [] ch = None"
| "rfind_char (c # cs) ch =
     (case rfind_char cs ch of
        Some i \<Rightarrow> Some (Suc i)
      | None \<Rightarrow> if c = ch then Some 0 else None)"

datatype std_exception = out_of_range

text \<open>
  \<^verbatim>\<open>s.substr(pos)\<close> throws \<^verbatim>\<open>std::out_of_range\<close> when \<^verbatim>\<open>pos > s.size()\<close>, which is the case of
  \<^verbatim>\<open>npos\<close>.
\<close>

definition substr :: "string \<Rightarrow> nat option \<Rightarrow> std_exception + string" where
  "substr s pos =
     (case pos of
        None \<Rightarrow> Inl out_of_range
      | Some i \<Rightarrow> if length s < i then Inl out_of_range else Inr (drop i s))"

subsection \<open>The knowledge base\<close>

text \<open>
  An \<^verbatim>\<open>ScAddr\<close> is a number, the default-constructed one is empty and is the only invalid one.
\<close>

type_synonym ScAddr = nat

definition ScAddr_Empty :: ScAddr where
  "ScAddr_Empty = 0"

definition IsValid :: "ScAddr \<Rightarrow> bool" where
  "IsValid a = (a \<noteq> ScAddr_Empty)"

datatype ScException = ScException (Message: string) (Description: string)

text \<open>
  The queries the command makes. \<open>access_edge ctx a b\<close> says that the three-element iterator
  over constant positive permanent access arcs from \<open>a\<close> to \<open>b\<close> has a first element.
  The three functions of \<^verbatim>\<open>componentUtils::SearchUtils\<close> either return or throw a
  \<^verbatim>\<open>utils::ScException\<close>. \<open>link_content\<close> gives the content of the addresses that are links.
\<close>

record ScMemoryContext =
  HelperFindBySystemIdtf :: "string \<Rightarrow> ScAddr"
  HelperGetSystemIdtf :: "ScAddr \<Rightarrow> string"
  concept_reusable_component :: ScAddr
  access_edge :: "ScAddr \<Rightarrow> ScAddr \<Rightarrow> bool"
  link_content :: "ScAddr \<Rightarrow> string option"
  GetComponentAddress :: "ScAddr \<Rightarrow> ScException + ScAddr"
  GetComponentInstallationMethod :: "ScAddr \<Rightarrow> ScException + ScAddr"
  GetComponentDependencies :: "ScAddr \<Rightarrow> ScException + ScAddr list"

text \<open>
  \<^verbatim>\<open>context->GetLinkContent(addr, out)\<close> writes the content of a link to its second argument
  and answers whether it did; the command never reads the answer. The empty address is
  no link, so the call then leaves \<open>out\<close> as it was. The function is the value of \<open>out\<close>
  after the call.
\<close>

definition GetLinkContent :: "ScMemoryContext \<Rightarrow> ScAddr \<Rightarrow> string \<Rightarrow> string" where
  "GetLinkContent ctx a out =
     (if IsValid a then (case link_content ctx a of None \<Rightarrow> out | Some s \<Rightarrow> s) else out)"

subsection \<open>The state: disk, effects and log\<close>

datatype log_level = DEBUG | INFO | WARNING | ERROR

datatype effect = Mkdirs string | Exec "string list" | LoadScsFile string

text \<open>
  The operating system, over any type \<open>'fs\<close> of disk states: \<open>stat_ok d p\<close> says that
  \<^verbatim>\<open>stat(p, &sb) == 0\<close>; \<open>mkdirs\<close> and \<open>run\<close> are what \<^verbatim>\<open>sc_fs_mkdirs\<close> and the process started
  by \<^verbatim>\<open>ScExec\<close> do to the disk; \<open>dir_entries d p\<close> is \<open>None\<close> when \<^verbatim>\<open>opendir(p)\<close> is null and
  else the names \<^verbatim>\<open>readdir\<close> gives, in its order.
\<close>

record 'fs host =
  stat_ok :: "'fs \<Rightarrow> string \<Rightarrow> bool"
  mkdirs :: "string \<Rightarrow> 'fs \<Rightarrow> 'fs"
  run :: "string list \<Rightarrow> 'fs \<Rightarrow> 'fs"
  dir_entries :: "'fs \<Rightarrow> string \<Rightarrow> string list option"

record 'fs world =
  disk :: 'fs
  effects :: "effect list"
  logged :: "(log_level \<times> string) list"

definition SC_LOG :: "log_level \<Rightarrow> string \<Rightarrow> 'fs world \<Rightarrow> 'fs world" where
  "SC_LOG l m w = w\<lparr>logged := logged w @ [(l, m)]\<rparr>"

definition sc_fs_mkdirs :: "'fs host \<Rightarrow> string \<Rightarrow> 'fs world \<Rightarrow> 'fs world" where
  "sc_fs_mkdirs h p w = w\<lparr>disk := mkdirs h p (disk w), effects := effects w @ [Mkdirs p]\<rparr>"

definition ScExec :: "'fs host \<Rightarrow> string list \<Rightarrow> 'fs world \<Rightarrow> 'fs world" where
  "ScExec h args w = w\<lparr>disk := run h args (disk w), effects := effects w @ [Exec args]\<rparr>"

definition loadScsFile :: "string \<Rightarrow> 'fs world \<Rightarrow> 'fs world" where
  "loadScsFile p w = w\<lparr>effects := effects w @ [LoadScsFile p]\<rparr>"

text \<open>
  The pattern \<^verbatim>\<open>T x; try { x = f(); } catch (utils::ScException const & e) { ... }\<close>: on
  an exception its message and description are logged as errors and \<open>x\<close> keeps its
  default-constructed value.
\<close>

definition try_ScException :: "ScException + 'a \<Rightarrow> 'a \<Rightarrow> 'fs world \<Rightarrow> 'a \<times> 'fs world" where
  "try_ScException r dflt w =
     (case r of
        Inr v \<Rightarrow> (v, w)
      | Inl e \<Rightarrow> (dflt, SC_LOG ERROR (Description e) (SC_LOG ERROR (Message e) w)))"

subsection \<open>The command\<close>

text \<open>
  The object holds \<^verbatim>\<open>m_specificationsPath\<close>. The constants \<^verbatim>\<open>PARAMETER_NAME\<close> and
  \<^verbatim>\<open>GitHubConstants::GITHUB_PREFIX\<close> are declared in headers outside this file and are
  taken as given.
\<close>

record ScComponentManagerCommandInstall =
  m_specificationsPath :: string
  PARAMETER_NAME :: string
  GITHUB_PREFIX :: string

type_synonym CommandParameters = "string \<rightharpoonup> string list"

type_synonym ExecutionResult = "string list"

subsubsection \<open>ValidateComponent\<close>

definition ValidateComponent :: "ScMemoryContext \<Rightarrow> ScAddr \<Rightarrow> 'fs world \<Rightarrow> bool \<times> 'fs world" where
  "ValidateComponent ctx componentAddr w =
     (if \<not> IsValid componentAddr
      then (False, SC_LOG WARNING ''Component not found. Unable to install'' w)
      else if \<not> access_edge ctx (concept_reusable_component ctx) componentAddr
      then (False, SC_LOG WARNING ''Component is not a reusable component.'' w)
      else
        (case try_ScException (GetComponentAddress ctx componentAddr) ScAddr_Empty w of
           (componentAddressAddr, w1) \<Rightarrow>
             if GetLinkContent ctx componentAddressAddr [] = []
             then (False, SC_LOG WARNING ''Component address not found.'' w1)
             else
               (case try_ScException (GetComponentInstallationMethod ctx componentAddr)
                       ScAddr_Empty w1 of
                  (componentInstallationMethod, w2) \<Rightarrow>
                    if \<not> IsValid componentInstallationMethod
                    then (False, SC_LOG WARNING ''Component installation method not found.'' w2)
                    else (True, w2))))"

subsubsection \<open>DownloadComponent\<close>

text \<open>
  The loop \<^verbatim>\<open>while (stat(componentDirName.c_str(), &sb) == 0) componentDirName += segment\<close>.
  It may run forever; \<open>None\<close> is that it does.
\<close>

partial_function (option) free_dir_name :: "(string \<Rightarrow> bool) \<Rightarrow> string \<Rightarrow> string \<Rightarrow> string option" where
  "free_dir_name exists segment componentDirName =
     (if exists componentDirName
      then free_dir_name exists segment (componentDirName @ segment)
      else Some componentDirName)"

declare free_dir_name.simps [code]

text \<open>The loop over \<^verbatim>\<open>readdir\<close>.\<close>

fun load_entries :: "string \<Rightarrow> string list \<Rightarrow> 'fs world \<Rightarrow> 'fs world" where
  "load_entries componentDirName [] w = w"
| "load_entries componentDirName (filename # rest) w =
     load_entries componentDirName rest
       (if rfind_str filename ''.scs'' \<noteq> None
        then loadScsFile (componentDirName @ ''/'' @ filename) w
        else w)"

definition DownloadComponent ::
  "'fs host \<Rightarrow> ScMemoryContext \<Rightarrow> ScComponentManagerCommandInstall \<Rightarrow> ScAddr \<Rightarrow> 'fs world
     \<Rightarrow> (std_exception + 'fs world) option" where
  "DownloadComponent h ctx cmd componentAddr w =
     (case try_ScException (GetComponentAddress ctx componentAddr) ScAddr_Empty w of
        (componentAddressAddr, w1) \<Rightarrow>
          (let componentAddressContent = GetLinkContent ctx componentAddressAddr []
           in if find_str componentAddressContent (GITHUB_PREFIX cmd) \<noteq> None
              then
                (case substr componentAddressContent (rfind_char componentAddressContent CHR ''/'') of
                   Inl e \<Rightarrow> Some (Inl e)
                 | Inr segment \<Rightarrow>
                     (case free_dir_name (stat_ok h (disk w1)) segment
                             (m_specificationsPath cmd @ segment) of
                        None \<Rightarrow> None
                      | Some componentDirName \<Rightarrow>
                          (let w2 = sc_fs_mkdirs h componentDirName w1;
                               w3 = ScExec h [''cd'', componentDirName, ''&&'', ''git clone '',
                                              componentAddressContent] w2;
                               clonedDirName = componentDirName @ segment
                           in case dir_entries h (disk w3) clonedDirName of
                                None \<Rightarrow> Some (Inr w3)
                              | Some names \<Rightarrow> Some (Inr (load_entries clonedDirName names w3)))))
              else Some (Inr w1)))"

subsubsection \<open>InstallDependencies and Execute\<close>

text \<open>
  \<^verbatim>\<open>Execute\<close> and \<^verbatim>\<open>InstallDependencies\<close> call each other, with no bound on the depth. The
  loops of both take the recursive call as the argument \<open>exec\<close>; \<open>Execute n\<close> is the
  function that may nest \<open>n\<close> calls of \<^verbatim>\<open>Execute\<close>, and \<open>None\<close> says that this was not enough
  (or that a directory search inside ran forever). An exception that no handler of the
  file catches is \<open>Inl\<close>.
\<close>

type_synonym 'fs outcome = "(std_exception + ExecutionResult \<times> 'fs world) option"

definition quote :: string where
  "quote = [CHR 0x22]"

fun InstallDependencies_for ::
  "(CommandParameters \<Rightarrow> 'fs world \<Rightarrow> 'fs outcome) \<Rightarrow> ScMemoryContext
     \<Rightarrow> ScComponentManagerCommandInstall \<Rightarrow> ScAddr list \<Rightarrow> ExecutionResult \<Rightarrow> 'fs world
     \<Rightarrow> 'fs outcome" where
  "InstallDependencies_for exec ctx cmd [] result w = Some (Inr (result, w))"
| "InstallDependencies_for exec ctx cmd (componentDependency # rest) result w =
     (let dependencyIdtf = HelperGetSystemIdtf ctx componentDependency;
          w1 = SC_LOG INFO (''ScComponentManager: Install dependency '' @ quote
                              @ dependencyIdtf @ quote) w
      in case exec [PARAMETER_NAME cmd \<mapsto> [dependencyIdtf]] w1 of
           None \<Rightarrow> None
         | Some (Inl e) \<Rightarrow> Some (Inl e)
         | Some (Inr (dependencyResult, w2)) \<Rightarrow>
             if dependencyResult = []
             then Some (Inr (dependencyResult,
                    SC_LOG ERROR (''Dependency '' @ quote @ dependencyIdtf @ quote
                                    @ '' is not installed'') w2))
             else InstallDependencies_for exec ctx cmd rest (dependencyResult @ result) w2)"

definition InstallDependencies ::
  "(CommandParameters \<Rightarrow> 'fs world \<Rightarrow> 'fs outcome) \<Rightarrow> ScMemoryContext
     \<Rightarrow> ScComponentManagerCommandInstall \<Rightarrow> ScAddr \<Rightarrow> 'fs world \<Rightarrow> 'fs outcome" where
  "InstallDependencies exec ctx cmd componentAddr w =
     (case try_ScException (GetComponentDependencies ctx componentAddr) [] w of
        (componentDependencies, w1) \<Rightarrow>
          InstallDependencies_for exec ctx cmd componentDependencies [] w1)"

fun Execute_for ::
  "(CommandParameters \<Rightarrow> 'fs world \<Rightarrow> 'fs outcome) \<Rightarrow> 'fs host \<Rightarrow> ScMemoryContext
     \<Rightarrow> ScComponentManagerCommandInstall \<Rightarrow> string list \<Rightarrow> 'fs world
     \<Rightarrow> (std_exception + 'fs world) option" where
  "Execute_for exec h ctx cmd [] w = Some (Inr w)"
| "Execute_for exec h ctx cmd (componentToInstallIdentifier # rest) w =
     (let componentAddr = HelperFindBySystemIdtf ctx componentToInstallIdentifier;
          w1 = SC_LOG DEBUG (''Validating component '' @ quote @ componentToInstallIdentifier) w
      in case ValidateComponent ctx componentAddr w1 of
           (valid, w2) \<Rightarrow>
             if \<not> valid
             then Execute_for exec h ctx cmd rest
                    (SC_LOG WARNING (''Unable to install component '' @ quote
                                       @ componentToInstallIdentifier) w2)
             else
               (let w3 = SC_LOG DEBUG (''Component '' @ quote @ componentToInstallIdentifier
                                         @ quote @ '' is specified correctly'') w2
                in case InstallDependencies exec ctx cmd componentAddr w3 of
                     None \<Rightarrow> None
                   | Some (Inl e) \<Rightarrow> Some (Inl e)
                   | Some (Inr (dependencies, w4)) \<Rightarrow>
                       (case DownloadComponent h ctx cmd componentAddr w4 of
                          None \<Rightarrow> None
                        | Some (Inl e) \<Rightarrow> Some (Inl e)
                        | Some (Inr w5) \<Rightarrow> Execute_for exec h ctx cmd rest w5)))"

definition Execute_body ::
  "(CommandParameters \<Rightarrow> 'fs world \<Rightarrow> 'fs outcome) \<Rightarrow> 'fs host \<Rightarrow> ScMemoryContext
     \<Rightarrow> ScComponentManagerCommandInstall \<Rightarrow> CommandParameters \<Rightarrow> 'fs world \<Rightarrow> 'fs outcome" where
  "Execute_body exec h ctx cmd commandParameters w =
     (let result = []
      in case commandParameters (PARAMETER_NAME cmd) of
           None \<Rightarrow>
             Some (Inr (result,
               SC_LOG INFO ''No identifier provided, installing all to install components'' w))
         | Some componentsToInstall \<Rightarrow>
             (case Execute_for exec h ctx cmd componentsToInstall w of
                None \<Rightarrow> None
              | Some (Inl e) \<Rightarrow> Some (Inl e)
              | Some (Inr w') \<Rightarrow> Some (Inr (result, w'))))"

primrec Execute ::
  "nat \<Rightarrow> 'fs host \<Rightarrow> ScMemoryContext \<Rightarrow> ScComponentManagerCommandInstall
     \<Rightarrow> CommandParameters \<Rightarrow> 'fs world \<Rightarrow> 'fs outcome" where
  "Execute 0 h ctx cmd commandParameters w = None"
| "Execute (Suc n) h ctx cmd commandParameters w =
     Execute_body (Execute n h ctx cmd) h ctx cmd commandParameters w"


section \<open>Notions of the statements\<close>

subsection \<open>The metadata of a component, as the command reads it\<close>

text \<open>
  A lookup that throws leaves the variable at its default value and logs two lines;
  \<open>lookup_value\<close> is the value, \<open>lookup_log\<close> the lines.
\<close>

definition lookup_value :: "ScException + 'a \<Rightarrow> 'a \<Rightarrow> 'a" where
  "lookup_value r dflt = (case r of Inl e \<Rightarrow> dflt | Inr v \<Rightarrow> v)"

definition lookup_log :: "ScException + 'a \<Rightarrow> (log_level \<times> string) list" where
  "lookup_log r =
     (case r of Inl e \<Rightarrow> [(ERROR, Message e), (ERROR, Description e)] | Inr v \<Rightarrow> [])"

definition add_log :: "(log_level \<times> string) list \<Rightarrow> 'fs world \<Rightarrow> 'fs world" where
  "add_log ls w = w\<lparr>logged := logged w @ ls\<rparr>"

definition is_reusable :: "ScMemoryContext \<Rightarrow> ScAddr \<Rightarrow> bool" where
  "is_reusable ctx c = access_edge ctx (concept_reusable_component ctx) c"

definition address_content :: "ScMemoryContext \<Rightarrow> ScAddr \<Rightarrow> string" where
  "address_content ctx c =
     GetLinkContent ctx (lookup_value (GetComponentAddress ctx c) ScAddr_Empty) []"

definition installation_method :: "ScMemoryContext \<Rightarrow> ScAddr \<Rightarrow> ScAddr" where
  "installation_method ctx c =
     lookup_value (GetComponentInstallationMethod ctx c) ScAddr_Empty"

text \<open>The four checks of \<^verbatim>\<open>ValidateComponent\<close> together.\<close>

definition validated :: "ScMemoryContext \<Rightarrow> ScAddr \<Rightarrow> bool" where
  "validated ctx c \<longleftrightarrow>
     IsValid c \<and> is_reusable ctx c \<and> address_content ctx c \<noteq> []
       \<and> IsValid (installation_method ctx c)"

text \<open>
  The lines that \<^verbatim>\<open>Execute\<close> logs for an identifier that resolves to no component and for
  one that passes the validation, and the lines that \<^verbatim>\<open>InstallDependencies\<close> logs before
  the install of a dependency and after one that gave the empty plan.
\<close>

definition unresolved_log :: "string \<Rightarrow> (log_level \<times> string) list" where
  "unresolved_log idtf =
     [(DEBUG, ''Validating component '' @ quote @ idtf),
      (WARNING, ''Component not found. Unable to install''),
      (WARNING, ''Unable to install component '' @ quote @ idtf)]"

definition accepted_log :: "string \<Rightarrow> (log_level \<times> string) list" where
  "accepted_log idtf =
     [(DEBUG, ''Validating component '' @ quote @ idtf),
      (DEBUG, ''Component '' @ quote @ idtf @ quote @ '' is specified correctly'')]"

definition dependency_log :: "string \<Rightarrow> (log_level \<times> string) list" where
  "dependency_log idtf =
     [(INFO, ''ScComponentManager: Install dependency '' @ quote @ idtf @ quote)]"

definition not_installed_log :: "string \<Rightarrow> (log_level \<times> string) list" where
  "not_installed_log idtf =
     [(ERROR, ''Dependency '' @ quote @ idtf @ quote @ '' is not installed'')]"

subsection \<open>A small knowledge base and a small disk\<close>

text \<open>
  Six components: \<open>A\<close> and \<open>B\<close> are complete; \<open>C\<close> has an address and a method but is
  not tagged reusable; for \<open>D\<close> the address lookup throws; for \<open>E\<close> the method lookup
  throws; \<open>F\<close> is complete and its address is one of another host that has the GitHub
  address further right. The dependencies are left open.
\<close>

definition example_store :: "(ScAddr \<Rightarrow> ScException + ScAddr list) \<Rightarrow> ScMemoryContext" where
  "example_store deps =
     \<lparr>HelperFindBySystemIdtf = (\<lambda>s. if s = ''A'' then 1 else if s = ''B'' then 2
                                   else if s = ''C'' then 3 else if s = ''D'' then 4
                                   else if s = ''E'' then 5 else if s = ''F'' then 6 else 0),
      HelperGetSystemIdtf = (\<lambda>a. if a = 1 then ''A'' else if a = 2 then ''B''
                                   else if a = 3 then ''C'' else if a = 4 then ''D''
                                   else if a = 5 then ''E'' else if a = 6 then ''F'' else []),
      concept_reusable_component = 100,
      access_edge = (\<lambda>a b. a = 100 \<and> (b = 1 \<or> b = 2 \<or> b = 4 \<or> b = 5 \<or> b = 6)),
      link_content = (\<lambda>a. if a = 11 then Some ''https://github.com/o/A''
                            else if a = 12 then Some ''https://github.com/o/B''
                            else if a = 13 then Some ''https://github.com/o/C''
                            else if a = 15 then Some ''https://github.com/o/E''
                            else if a = 16 then Some ''ftp://mirror/https://github.com/o/F''
                            else None),
      GetComponentAddress = (\<lambda>c. if c = 1 then Inr 11 else if c = 2 then Inr 12
                                   else if c = 3 then Inr 13 else if c = 5 then Inr 15
                                   else if c = 6 then Inr 16
                                   else Inl (ScException ''ItemNotFound'' ''no address'')),
      GetComponentInstallationMethod = (\<lambda>c. if c = 1 \<or> c = 2 \<or> c = 3 \<or> c = 6 then Inr 21
                                   else Inl (ScException ''ItemNotFound'' ''no method'')),
      GetComponentDependencies = deps\<rparr>"

text \<open>Dependencies given by a table; a component that is not in it has none.\<close>

definition example_dependencies :: "(ScAddr \<times> ScAddr list) list \<Rightarrow> ScAddr \<Rightarrow> ScException + ScAddr list" where
  "example_dependencies table c = (case map_of table c of None \<Rightarrow> Inr [] | Some ds \<Rightarrow> Inr ds)"

definition example_world :: "string list world" where
  "example_world = \<lparr>disk = [], effects = [], logged = []\<rparr>"

text \<open>
  The command object and a host for the examples. The disk of this host is the list of the
  paths that exist; the cloning process creates the directory of the repository under
  the directory it is started in, and every directory that exists lists the same five
  names.
\<close>

definition example_command :: ScComponentManagerCommandInstall where
  "example_command =
     \<lparr>m_specificationsPath = ''/specs'', PARAMETER_NAME = ''idtf'',
      GITHUB_PREFIX = ''https://github.com/''\<rparr>"

definition example_host :: "string list host" where
  "example_host =
     \<lparr>stat_ok = (\<lambda>d p. p \<in> set d),
      mkdirs = (\<lambda>p d. p # d),
      run = (\<lambda>args d.
               (case args of
                  [cd, dir, amp, git, url] \<Rightarrow>
                    (case rfind_char url CHR ''/'' of
                       None \<Rightarrow> d
                     | Some i \<Rightarrow> (dir @ drop i url) # d)
                | _ \<Rightarrow> d)),
      dir_entries = (\<lambda>d p. if p \<in> set d
                            then Some [''.'', ''..'', ''main.scs'', ''notes.scs.bak'', ''README.md'']
                            else None)\<rparr>"

subsection \<open>The names of the staging directory\<close>

text \<open>
  The names the search goes through: the root followed by the last segment of the
  address once, twice, and so on; \<open>staging_name root segment k\<close> is the one with \<open>k + 1\<close>
  copies.
\<close>

definition staging_name :: "string \<Rightarrow> string \<Rightarrow> nat \<Rightarrow> string" where
  "staging_name root segment k = root @ concat (replicate (Suc k) segment)"

subsection \<open>The dependency graph\<close>

text \<open>
  The dependencies \<^verbatim>\<open>InstallDependencies\<close> goes through: an exception of the lookup leaves the
  vector empty.
\<close>

definition component_dependencies :: "ScMemoryContext \<Rightarrow> ScAddr \<Rightarrow> ScAddr list" where
  "component_dependencies ctx c = lookup_value (GetComponentDependencies ctx c) []"

text \<open>
  The edges the recursion can follow. A dependency \<open>d\<close> of a component \<open>c\<close> that passes the
  validation is installed through its identifier, so the edge goes from the component
  that the identifier of \<open>d\<close> resolves to; it is written (dependency, dependent). The
  graph reachable from a set of requested components has the edges whose dependent can be
  reached from one of them.
\<close>

definition dependency_graph :: "ScMemoryContext \<Rightarrow> (ScAddr \<times> ScAddr) set" where
  "dependency_graph ctx =
     {(HelperFindBySystemIdtf ctx (HelperGetSystemIdtf ctx d), c) | c d.
        validated ctx c \<and> d \<in> set (component_dependencies ctx c)}"

definition requested_components ::
  "ScMemoryContext \<Rightarrow> ScComponentManagerCommandInstall \<Rightarrow> CommandParameters \<Rightarrow> ScAddr set" where
  "requested_components ctx cmd commandParameters =
     (case commandParameters (PARAMETER_NAME cmd) of
        None \<Rightarrow> {}
      | Some componentsToInstall \<Rightarrow> HelperFindBySystemIdtf ctx ` set componentsToInstall)"

definition reachable_dependency_graph :: "ScMemoryContext \<Rightarrow> ScAddr set \<Rightarrow> (ScAddr \<times> ScAddr) set" where
  "reachable_dependency_graph ctx roots =
     {(d, c). (d, c) \<in> dependency_graph ctx \<and> (\<exists>r\<in>roots. (c, r) \<in> (dependency_graph ctx)\<^sup>*)}"

text \<open>
  The edges the recursion follows in any case: from a component that passes the validation
  to the component that the identifier of the first entry of its dependency list resolves
  to, written (dependent, dependency). The graph reachable from a component \<open>r\<close> has the
  edges that start at a component reachable from \<open>r\<close>.
\<close>

definition first_dependency_graph :: "ScMemoryContext \<Rightarrow> (ScAddr \<times> ScAddr) set" where
  "first_dependency_graph ctx =
     {(c, HelperFindBySystemIdtf ctx (HelperGetSystemIdtf ctx d)) | c d ds.
        validated ctx c \<and> component_dependencies ctx c = d # ds}"

definition reachable_first_dependency_graph :: "ScMemoryContext \<Rightarrow> ScAddr \<Rightarrow> (ScAddr \<times> ScAddr) set" where
  "reachable_first_dependency_graph ctx r =
     {(c, d). (c, d) \<in> first_dependency_graph ctx \<and> (r, c) \<in> (first_dependency_graph ctx)\<^sup>*}"

text \<open>
  A host on which the search for a staging directory always ends: whatever the disk, every
  sequence of names with a segment that is not empty has a free name.
\<close>

definition always_free_name :: "'fs host \<Rightarrow> bool" where
  "always_free_name h \<longleftrightarrow>
     (\<forall>d root segment. segment \<noteq> [] \<longrightarrow> (\<exists>k. \<not> stat_ok h d (staging_name root segment k)))"

text \<open>
  \<open>le_exec e e'\<close>: where the install function \<open>e\<close> returns, \<open>e'\<close> returns the same.
\<close>

definition le_exec ::
  "(CommandParameters \<Rightarrow> 'fs world \<Rightarrow> 'fs outcome) \<Rightarrow> (CommandParameters \<Rightarrow> 'fs world \<Rightarrow> 'fs outcome)
     \<Rightarrow> bool" where
  "le_exec e e' \<longleftrightarrow> (\<forall>p w r. e p w = Some r \<longrightarrow> e' p w = Some r)"

text \<open>
  An install function under which the recorded effects only grow: what was done before a
  call is still there after it.
\<close>

definition effects_grow :: "(CommandParameters \<Rightarrow> 'fs world \<Rightarrow> 'fs outcome) \<Rightarrow> bool" where
  "effects_grow exec \<longleftrightarrow>
     (\<forall>p w plan w'. exec p w = Some (Inr (plan, w')) \<longrightarrow> prefix (effects w) (effects w'))"

text \<open>
  Four stores: in the first \<open>A\<close> depends on \<open>B\<close> and \<open>B\<close> on \<open>A\<close>; in the second \<open>A\<close>
  depends on \<open>B\<close> only; in the third \<open>A\<close> depends on \<open>C\<close>, which is not reusable, and then
  on itself; in the fourth \<open>A\<close> depends on \<open>B\<close> and \<open>D\<close>, and \<open>B\<close> on itself.
\<close>

definition cyclic_store :: ScMemoryContext where
  "cyclic_store = example_store (example_dependencies [(1, [2]), (2, [1])])"

definition chain_store :: ScMemoryContext where
  "chain_store = example_store (example_dependencies [(1, [2])])"

definition skipped_cycle_store :: ScMemoryContext where
  "skipped_cycle_store = example_store (example_dependencies [(1, [3, 1])])"

definition lasso_store :: ScMemoryContext where
  "lasso_store = example_store (example_dependencies [(1, [2, 4]), (2, [2])])"

section \<open>ValidateComponent\<close>

lemma try_ScException_eq:
  "try_ScException r dflt w = (lookup_value r dflt, add_log (lookup_log r) w)"
  by (cases r) (simp_all add: try_ScException_def lookup_value_def lookup_log_def add_log_def SC_LOG_def)

lemma SC_LOG_add_log: "SC_LOG l m (add_log ls w) = add_log (ls @ [(l, m)]) w"
  by (simp add: SC_LOG_def add_log_def)

lemma SC_LOG_eq: "SC_LOG l m w = add_log [(l, m)] w"
  by (simp add: SC_LOG_def add_log_def)

lemma add_log_add_log: "add_log ls (add_log ks w) = add_log (ks @ ls) w"
  by (simp add: add_log_def)

lemma add_log_Nil: "add_log [] w = w"
  by (simp add: add_log_def)

lemma ValidateComponent_eq:
  "ValidateComponent ctx c w =
     (if \<not> IsValid c then (False, add_log [(WARNING, ''Component not found. Unable to install'')] w)
      else if \<not> is_reusable ctx c
      then (False, add_log [(WARNING, ''Component is not a reusable component.'')] w)
      else if address_content ctx c = []
      then (False, add_log (lookup_log (GetComponentAddress ctx c)
                              @ [(WARNING, ''Component address not found.'')]) w)
      else if \<not> IsValid (installation_method ctx c)
      then (False, add_log (lookup_log (GetComponentAddress ctx c)
                              @ lookup_log (GetComponentInstallationMethod ctx c)
                              @ [(WARNING, ''Component installation method not found.'')]) w)
      else (True, add_log (lookup_log (GetComponentAddress ctx c)
                              @ lookup_log (GetComponentInstallationMethod ctx c)) w))"
  by (simp add: ValidateComponent_def try_ScException_eq is_reusable_def address_content_def
        installation_method_def SC_LOG_add_log add_log_add_log SC_LOG_eq)

text \<open>
  Claim C2. \<^verbatim>\<open>ValidateComponent\<close> answers true exactly when the four checks pass: the
  address is valid, the component is tagged reusable, the content of its address link is
  not empty, and its installation method is valid. The checks run in this order and the
  first that fails decides: the state after the call holds the warning of that check and
  the error lines of the lookups made before it, and of no later one. A component without
  the reusable tag is rejected whatever else it has.
\<close>

theorem ValidateComponent_checks_in_order:
  "(fst (ValidateComponent ctx c w) \<longleftrightarrow>
      IsValid c \<and> is_reusable ctx c \<and> address_content ctx c \<noteq> []
        \<and> IsValid (installation_method ctx c))
   \<and> (\<not> IsValid c \<longrightarrow>
        ValidateComponent ctx c w
          = (False, add_log [(WARNING, ''Component not found. Unable to install'')] w))
   \<and> (IsValid c \<and> \<not> is_reusable ctx c \<longrightarrow>
        ValidateComponent ctx c w
          = (False, add_log [(WARNING, ''Component is not a reusable component.'')] w))
   \<and> (IsValid c \<and> is_reusable ctx c \<and> address_content ctx c = [] \<longrightarrow>
        ValidateComponent ctx c w
          = (False, add_log (lookup_log (GetComponentAddress ctx c)
                               @ [(WARNING, ''Component address not found.'')]) w))
   \<and> (IsValid c \<and> is_reusable ctx c \<and> address_content ctx c \<noteq> []
        \<and> \<not> IsValid (installation_method ctx c) \<longrightarrow>
        ValidateComponent ctx c w
          = (False, add_log (lookup_log (GetComponentInstallationMethod ctx c)
                               @ [(WARNING, ''Component installation method not found.'')]) w))
   \<and> (\<not> is_reusable ctx c \<longrightarrow> \<not> fst (ValidateComponent ctx c w))"
proof -
  have "address_content ctx c \<noteq> [] \<Longrightarrow> lookup_log (GetComponentAddress ctx c) = []"
    by (cases "GetComponentAddress ctx c")
       (simp_all add: address_content_def lookup_value_def lookup_log_def GetLinkContent_def
          IsValid_def)
  then show ?thesis
    by (simp add: ValidateComponent_eq)
qed

text \<open>
  Claim C4. When the lookup of the address or of the installation method throws inside
  \<^verbatim>\<open>ValidateComponent\<close>, the message and the description of the exception are logged as
  errors and the call answers false, with the warning of an absent address or method.
  The function has a value in every case: nothing is thrown out of it.
\<close>

theorem ValidateComponent_lookup_error_rejects:
  "(IsValid c \<and> is_reusable ctx c \<and> GetComponentAddress ctx c = Inl e \<longrightarrow>
      ValidateComponent ctx c w
        = (False, add_log [(ERROR, Message e), (ERROR, Description e),
                           (WARNING, ''Component address not found.'')] w))
   \<and> (IsValid c \<and> is_reusable ctx c \<and> address_content ctx c \<noteq> []
        \<and> GetComponentInstallationMethod ctx c = Inl e \<longrightarrow>
      ValidateComponent ctx c w
        = (False, add_log [(ERROR, Message e), (ERROR, Description e),
                           (WARNING, ''Component installation method not found.'')] w))
   \<and> (GetComponentAddress ctx c = Inl e \<or> GetComponentInstallationMethod ctx c = Inl e \<longrightarrow>
        \<not> fst (ValidateComponent ctx c w))"
proof -
  have a: "address_content ctx c = []" if "GetComponentAddress ctx c = Inl e"
    using that
    by (simp add: address_content_def lookup_value_def GetLinkContent_def IsValid_def)
  have b: "lookup_log (GetComponentAddress ctx c) = []" if "address_content ctx c \<noteq> []"
    using that
    by (cases "GetComponentAddress ctx c")
       (simp_all add: address_content_def lookup_value_def lookup_log_def GetLinkContent_def
          IsValid_def)
  have m: "\<not> IsValid (installation_method ctx c)"
    if "GetComponentInstallationMethod ctx c = Inl e"
    using that by (simp add: installation_method_def lookup_value_def IsValid_def)
  show ?thesis
    using a b m by (auto simp add: ValidateComponent_eq lookup_log_def)
qed

lemmas example_defs = example_store_def example_world_def IsValid_def ScAddr_Empty_def
  is_reusable_def address_content_def installation_method_def lookup_value_def lookup_log_def
  GetLinkContent_def add_log_def

theorem ValidateComponent_checks_in_order_witness:
  "fst (ValidateComponent (example_store (\<lambda>c. Inr [])) 1 example_world)
   \<and> \<not> IsValid 0
   \<and> ValidateComponent (example_store (\<lambda>c. Inr [])) 0 example_world
       = (False, add_log [(WARNING, ''Component not found. Unable to install'')] example_world)
   \<and> IsValid 3 \<and> \<not> is_reusable (example_store (\<lambda>c. Inr [])) 3
   \<and> address_content (example_store (\<lambda>c. Inr [])) 3 = ''https://github.com/o/C''
   \<and> installation_method (example_store (\<lambda>c. Inr [])) 3 = 21
   \<and> ValidateComponent (example_store (\<lambda>c. Inr [])) 3 example_world
       = (False, add_log [(WARNING, ''Component is not a reusable component.'')] example_world)
   \<and> IsValid 4 \<and> is_reusable (example_store (\<lambda>c. Inr [])) 4
   \<and> address_content (example_store (\<lambda>c. Inr [])) 4 = []
   \<and> ValidateComponent (example_store (\<lambda>c. Inr [])) 4 example_world
       = (False, add_log [(ERROR, ''ItemNotFound''), (ERROR, ''no address''),
                          (WARNING, ''Component address not found.'')] example_world)
   \<and> IsValid 5 \<and> is_reusable (example_store (\<lambda>c. Inr [])) 5
   \<and> address_content (example_store (\<lambda>c. Inr [])) 5 \<noteq> []
   \<and> \<not> IsValid (installation_method (example_store (\<lambda>c. Inr [])) 5)
   \<and> ValidateComponent (example_store (\<lambda>c. Inr [])) 5 example_world
       = (False, add_log [(ERROR, ''ItemNotFound''), (ERROR, ''no method''),
                          (WARNING, ''Component installation method not found.'')] example_world)"
  using ValidateComponent_checks_in_order [of "example_store (\<lambda>c. Inr [])" 1 example_world]
    ValidateComponent_checks_in_order [of "example_store (\<lambda>c. Inr [])" 0 example_world]
    ValidateComponent_checks_in_order [of "example_store (\<lambda>c. Inr [])" 3 example_world]
    ValidateComponent_checks_in_order [of "example_store (\<lambda>c. Inr [])" 4 example_world]
    ValidateComponent_checks_in_order [of "example_store (\<lambda>c. Inr [])" 5 example_world]
  by (simp add: example_defs)

theorem ValidateComponent_lookup_error_rejects_witness:
  "IsValid 4 \<and> is_reusable (example_store (\<lambda>c. Inr [])) 4
   \<and> GetComponentAddress (example_store (\<lambda>c. Inr [])) 4
       = Inl (ScException ''ItemNotFound'' ''no address'')
   \<and> ValidateComponent (example_store (\<lambda>c. Inr [])) 4 example_world
       = (False, add_log [(ERROR, ''ItemNotFound''), (ERROR, ''no address''),
                          (WARNING, ''Component address not found.'')] example_world)
   \<and> IsValid 5 \<and> is_reusable (example_store (\<lambda>c. Inr [])) 5
   \<and> address_content (example_store (\<lambda>c. Inr [])) 5 \<noteq> []
   \<and> GetComponentInstallationMethod (example_store (\<lambda>c. Inr [])) 5
       = Inl (ScException ''ItemNotFound'' ''no method'')
   \<and> ValidateComponent (example_store (\<lambda>c. Inr [])) 5 example_world
       = (False, add_log [(ERROR, ''ItemNotFound''), (ERROR, ''no method''),
                          (WARNING, ''Component installation method not found.'')] example_world)
   \<and> \<not> fst (ValidateComponent (example_store (\<lambda>c. Inr [])) 4 example_world)"
  using ValidateComponent_lookup_error_rejects
          [of 4 "example_store (\<lambda>c. Inr [])" "ScException ''ItemNotFound'' ''no address''"
              example_world]
    ValidateComponent_lookup_error_rejects
          [of 5 "example_store (\<lambda>c. Inr [])" "ScException ''ItemNotFound'' ''no method''"
              example_world]
  by (simp add: example_defs)

section \<open>DownloadComponent\<close>

lemma free_dir_name_first:
  "\<not> ex (name @ concat (replicate k seg)) \<Longrightarrow>
   \<exists>j\<le>k. free_dir_name ex seg name = Some (name @ concat (replicate j seg))
          \<and> \<not> ex (name @ concat (replicate j seg))
          \<and> (\<forall>i<j. ex (name @ concat (replicate i seg)))"
proof (induction k arbitrary: name)
  case 0
  then show ?case by (simp add: free_dir_name.simps)
next
  case (Suc k)
  show ?case
  proof (cases "ex name")
    case False
    then have "free_dir_name ex seg name = Some (name @ concat (replicate 0 seg))
          \<and> \<not> ex (name @ concat (replicate 0 seg))
          \<and> (\<forall>i<0. ex (name @ concat (replicate i seg)))"
      by (simp add: free_dir_name.simps)
    then show ?thesis by blast
  next
    case True
    from Suc.prems have "\<not> ex ((name @ seg) @ concat (replicate k seg))" by simp
    from Suc.IH [OF this] obtain j where j: "j \<le> k"
      "free_dir_name ex seg (name @ seg) = Some ((name @ seg) @ concat (replicate j seg))"
      "\<not> ex ((name @ seg) @ concat (replicate j seg))"
      "\<forall>i<j. ex ((name @ seg) @ concat (replicate i seg))"
      by blast
    have "free_dir_name ex seg name = Some (name @ concat (replicate (Suc j) seg))"
      using True j(2) by (subst free_dir_name.simps) simp
    moreover have "\<not> ex (name @ concat (replicate (Suc j) seg))"
      using j(3) by simp
    moreover have "\<forall>i<Suc j. ex (name @ concat (replicate i seg))"
    proof (intro allI impI)
      fix i assume "i < Suc j"
      then show "ex (name @ concat (replicate i seg))"
        using True j(4) by (cases i) auto
    qed
    ultimately show ?thesis using j(1) by (intro exI [of _ "Suc j"]) simp
  qed
qed

lemma effects_load_entries:
  "effects (load_entries dir names w)
     = effects w @ map (\<lambda>f. LoadScsFile (dir @ ''/'' @ f))
                       (filter (\<lambda>f. rfind_str f ''.scs'' \<noteq> None) names)"
  by (induction names arbitrary: w) (simp_all add: loadScsFile_def)

lemma disk_load_entries: "disk (load_entries dir names w) = disk w"
  by (induction names arbitrary: w) (simp_all add: loadScsFile_def)

lemma logged_load_entries: "logged (load_entries dir names w) = logged w"
  by (induction names arbitrary: w) (simp_all add: loadScsFile_def)

lemma DownloadComponent_eq:
  "DownloadComponent h ctx cmd c w =
     (if find_str (address_content ctx c) (GITHUB_PREFIX cmd) \<noteq> None
      then
        (case substr (address_content ctx c) (rfind_char (address_content ctx c) CHR ''/'') of
           Inl e \<Rightarrow> Some (Inl e)
         | Inr segment \<Rightarrow>
             (case free_dir_name (stat_ok h (disk w)) segment (m_specificationsPath cmd @ segment) of
                None \<Rightarrow> None
              | Some componentDirName \<Rightarrow>
                  (let w3 = ScExec h [''cd'', componentDirName, ''&&'', ''git clone '',
                                      address_content ctx c]
                              (sc_fs_mkdirs h componentDirName
                                 (add_log (lookup_log (GetComponentAddress ctx c)) w))
                   in case dir_entries h (disk w3) (componentDirName @ segment) of
                        None \<Rightarrow> Some (Inr w3)
                      | Some names \<Rightarrow>
                          Some (Inr (load_entries (componentDirName @ segment) names w3)))))
      else Some (Inr (add_log (lookup_log (GetComponentAddress ctx c)) w)))"
  by (simp add: DownloadComponent_def try_ScException_eq address_content_def Let_def add_log_def
        split: sum.splits option.splits)

lemma find_str_None_iff: "find_str s t = None \<longleftrightarrow> \<not> sublist t s"
  by (induction s) (auto simp add: sublist_Cons_right)

lemma rfind_str_None_iff: "rfind_str s t = None \<longleftrightarrow> \<not> sublist t s"
  by (induction s) (auto simp add: sublist_Cons_right split: option.splits)

lemma DownloadComponent_unrecognized:
  "find_str (address_content ctx c) (GITHUB_PREFIX cmd) = None \<Longrightarrow>
   DownloadComponent h ctx cmd c w = Some (Inr (add_log (lookup_log (GetComponentAddress ctx c)) w))"
  by (simp add: DownloadComponent_eq)

lemma rfind_char_less: "rfind_char s ch = Some i \<Longrightarrow> i < length s"
  by (induction s arbitrary: i) (auto split: option.splits if_splits)

lemma rfind_char_nth: "rfind_char s ch = Some i \<Longrightarrow> s ! i = ch"
  by (induction s arbitrary: i) (auto split: option.splits if_splits)



lemmas example_run_defs = example_defs example_command_def example_host_def
  substr_def free_dir_name.simps sc_fs_mkdirs_def ScExec_def loadScsFile_def

text \<open>
  Claim C6 says that exactly the entries whose name ends in \<^verbatim>\<open>.scs\<close> are loaded. The test of
  the source is \<^verbatim>\<open>filename.rfind(".scs") != std::string::npos\<close>, which holds of every name
  that has \<^verbatim>\<open>.scs\<close> anywhere (\<open>rfind_str_None_iff\<close>, \<open>effects_load_entries\<close>). Here the cloned
  directory holds \<^verbatim>\<open>notes.scs.bak\<close>, which does not end in \<^verbatim>\<open>.scs\<close> and is loaded.
\<close>

theorem DownloadComponent_loads_backup_file:
  "map_option (map_sum id effects)
     (DownloadComponent example_host (example_store (\<lambda>c. Inr [])) example_command 1
        example_world)
     = Some (Inr [Mkdirs ''/specs/A'',
                  Exec [''cd'', ''/specs/A'', ''&&'', ''git clone '', ''https://github.com/o/A''],
                  LoadScsFile ''/specs/A/A/main.scs'',
                  LoadScsFile ''/specs/A/A/notes.scs.bak''])
   \<and> \<not> suffix ''.scs'' ''notes.scs.bak''"
  by (simp add: DownloadComponent_eq example_run_defs suffix_def)

text \<open>
  Claim C7 says that an address which does not match the GitHub prefix is skipped. The test
  of the source is \<^verbatim>\<open>find(GITHUB_PREFIX) != std::string::npos\<close>, which holds of every address
  that has the prefix anywhere (\<open>find_str_None_iff\<close>); only an address without any
  occurrence is skipped (\<open>DownloadComponent_unrecognized\<close>). Here the address of \<open>F\<close> does
  not start with the prefix, and a directory is made and the cloning process started.
\<close>

theorem DownloadComponent_fetches_without_prefix:
  "\<not> prefix (GITHUB_PREFIX example_command)
        (address_content (example_store (\<lambda>c. Inr [])) 6)
   \<and> map_option (map_sum id (\<lambda>w. take 2 (effects w)))
       (DownloadComponent example_host (example_store (\<lambda>c. Inr [])) example_command 6
          example_world)
     = Some (Inr [Mkdirs ''/specs/F'',
                  Exec [''cd'', ''/specs/F'', ''&&'', ''git clone '',
                        ''ftp://mirror/https://github.com/o/F'']])"
  by (simp add: DownloadComponent_eq example_run_defs)


text \<open>
  Claim C8. For an address that has the GitHub prefix and whose last segment starts at its
  last \<^verbatim>\<open>/\<close>: when one of the names root + segment, root + segment + segment, ... is
  free, the search ends, with the first free name of the sequence; \<^verbatim>\<open>DownloadComponent\<close>
  returns, and the directory it makes and the one the cloning process is started in are
  that name, which did not exist before.
\<close>

theorem DownloadComponent_staging_directory:
  assumes "find_str (address_content ctx c) (GITHUB_PREFIX cmd) \<noteq> None"
      and "rfind_char (address_content ctx c) CHR ''/'' = Some i"
      and "segment = drop i (address_content ctx c)"
      and "root = m_specificationsPath cmd"
      and "\<not> stat_ok h (disk w) (staging_name root segment k)"
  shows "\<exists>j\<le>k. \<exists>w'.
           free_dir_name (stat_ok h (disk w)) segment (root @ segment)
             = Some (staging_name root segment j)
           \<and> DownloadComponent h ctx cmd c w = Some (Inr w')
           \<and> prefix (effects w @ [Mkdirs (staging_name root segment j),
                                   Exec [''cd'', staging_name root segment j, ''&&'',
                                         ''git clone '', address_content ctx c]])
                (effects w')
           \<and> \<not> stat_ok h (disk w) (staging_name root segment j)
           \<and> (\<forall>i<j. stat_ok h (disk w) (staging_name root segment i))"
proof -
  let ?content = "address_content ctx c"
  have name: "staging_name root segment n = (root @ segment) @ concat (replicate n segment)" for n
    by (simp add: staging_name_def)
  have sub: "substr ?content (rfind_char ?content CHR ''/'') = Inr segment"
    using assms(2,3) rfind_char_less [OF assms(2)] by (simp add: substr_def)
  from assms(5) have "\<not> stat_ok h (disk w) ((root @ segment) @ concat (replicate k segment))"
    by (simp add: staging_name_def)
  from free_dir_name_first
         [of "stat_ok h (disk w)" "root @ segment" k segment, OF this] obtain j where j: "j \<le> k"
    "free_dir_name (stat_ok h (disk w)) segment (root @ segment) = Some (staging_name root segment j)"
    "\<not> stat_ok h (disk w) (staging_name root segment j)"
    "\<forall>i<j. stat_ok h (disk w) (staging_name root segment i)"
    unfolding name by blast
  let ?dir = "staging_name root segment j"
  let ?w3 = "ScExec h [''cd'', ?dir, ''&&'', ''git clone '', ?content]
               (sc_fs_mkdirs h ?dir (add_log (lookup_log (GetComponentAddress ctx c)) w))"
  have eff: "effects ?w3 = effects w @ [Mkdirs ?dir, Exec [''cd'', ?dir, ''&&'', ''git clone '', ?content]]"
    by (simp add: ScExec_def sc_fs_mkdirs_def add_log_def)
  have "\<exists>w'. DownloadComponent h ctx cmd c w = Some (Inr w') \<and> prefix (effects ?w3) (effects w')"
  proof (cases "dir_entries h (disk ?w3) (?dir @ segment)")
    case None
    then have "DownloadComponent h ctx cmd c w = Some (Inr ?w3)"
      using assms(1,4) sub j(2) by (simp add: DownloadComponent_eq Let_def)
    then show ?thesis by auto
  next
    case (Some names)
    then have "DownloadComponent h ctx cmd c w
                 = Some (Inr (load_entries (?dir @ segment) names ?w3))"
      using assms(1,4) sub j(2) by (simp add: DownloadComponent_eq Let_def)
    moreover have "prefix (effects ?w3) (effects (load_entries (?dir @ segment) names ?w3))"
      by (simp only: effects_load_entries prefixI)
    ultimately show ?thesis by auto
  qed
  then show ?thesis
    using j unfolding eff by blast
qed

theorem DownloadComponent_staging_directory_witness:
  "find_str (address_content (example_store (\<lambda>c. Inr [])) 1) (GITHUB_PREFIX example_command)
     \<noteq> None
   \<and> rfind_char (address_content (example_store (\<lambda>c. Inr [])) 1) CHR ''/'' = Some 20
   \<and> ''/A'' = drop 20 (address_content (example_store (\<lambda>c. Inr [])) 1)
   \<and> ''/specs'' = m_specificationsPath example_command
   \<and> stat_ok example_host (disk (example_world\<lparr>disk := [''/specs/A'']\<rparr>)) ''/specs/A''
   \<and> \<not> stat_ok example_host (disk (example_world\<lparr>disk := [''/specs/A'']\<rparr>))
          (staging_name ''/specs'' ''/A'' 1)
   \<and> (\<exists>j\<le>1. \<exists>w'.
         free_dir_name (stat_ok example_host (disk (example_world\<lparr>disk := [''/specs/A'']\<rparr>)))
             ''/A'' (''/specs'' @ ''/A'')
           = Some (staging_name ''/specs'' ''/A'' j)
         \<and> DownloadComponent example_host (example_store (\<lambda>c. Inr [])) example_command 1
             (example_world\<lparr>disk := [''/specs/A'']\<rparr>) = Some (Inr w')
         \<and> prefix (effects (example_world\<lparr>disk := [''/specs/A'']\<rparr>)
                     @ [Mkdirs (staging_name ''/specs'' ''/A'' j),
                        Exec [''cd'', staging_name ''/specs'' ''/A'' j, ''&&'', ''git clone '',
                              address_content (example_store (\<lambda>c. Inr [])) 1]])
              (effects w')
         \<and> \<not> stat_ok example_host (disk (example_world\<lparr>disk := [''/specs/A'']\<rparr>))
                (staging_name ''/specs'' ''/A'' j)
         \<and> (\<forall>i<j. stat_ok example_host (disk (example_world\<lparr>disk := [''/specs/A'']\<rparr>))
                     (staging_name ''/specs'' ''/A'' i)))"
proof -
  have h1: "find_str (address_content (example_store (\<lambda>c. Inr [])) 1)
              (GITHUB_PREFIX example_command) \<noteq> None"
    by (simp add: example_run_defs)
  have h2: "rfind_char (address_content (example_store (\<lambda>c. Inr [])) 1) CHR ''/'' = Some 20"
    by (simp add: example_run_defs)
  have h3: "''/A'' = drop 20 (address_content (example_store (\<lambda>c. Inr [])) 1)"
    by (simp add: example_run_defs)
  have h4: "''/specs'' = m_specificationsPath example_command"
    by (simp add: example_run_defs)
  have h5: "\<not> stat_ok example_host (disk (example_world\<lparr>disk := [''/specs/A'']\<rparr>))
               (staging_name ''/specs'' ''/A'' 1)"
    by (simp add: example_run_defs staging_name_def)
  have h6: "stat_ok example_host (disk (example_world\<lparr>disk := [''/specs/A'']\<rparr>)) ''/specs/A''"
    by (simp add: example_run_defs)
  show ?thesis
    using h1 h2 h3 h4 h5 h6 DownloadComponent_staging_directory [OF h1 h2 h3 h4 h5]
    by blast
qed

section \<open>Execute and InstallDependencies\<close>

lemma ValidateComponent_validated:
  "validated ctx c \<Longrightarrow> ValidateComponent ctx c w = (True, w)"
proof -
  assume v: "validated ctx c"
  then have "lookup_log (GetComponentAddress ctx c) = []"
    by (cases "GetComponentAddress ctx c")
       (simp_all add: validated_def address_content_def lookup_value_def lookup_log_def
          GetLinkContent_def IsValid_def)
  moreover from v have "lookup_log (GetComponentInstallationMethod ctx c) = []"
    by (cases "GetComponentInstallationMethod ctx c")
       (simp_all add: validated_def installation_method_def lookup_value_def lookup_log_def
          IsValid_def)
  ultimately show ?thesis
    using v by (simp add: ValidateComponent_eq validated_def add_log_Nil)
qed

lemma fst_ValidateComponent: "fst (ValidateComponent ctx c w) = validated ctx c"
  by (simp add: ValidateComponent_eq validated_def)

lemma Execute_for_unresolved:
  "\<not> IsValid (HelperFindBySystemIdtf ctx idtf) \<Longrightarrow>
   Execute_for exec h ctx cmd (idtf # rest) w
     = Execute_for exec h ctx cmd rest (add_log (unresolved_log idtf) w)"
  by (simp add: ValidateComponent_eq SC_LOG_eq add_log_add_log unresolved_log_def)

lemma Execute_for_validated:
  "validated ctx (HelperFindBySystemIdtf ctx idtf) \<Longrightarrow>
   Execute_for exec h ctx cmd (idtf # rest) w
     = (case InstallDependencies exec ctx cmd (HelperFindBySystemIdtf ctx idtf)
               (add_log (accepted_log idtf) w) of
          None \<Rightarrow> None
        | Some (Inl e) \<Rightarrow> Some (Inl e)
        | Some (Inr (plan, w4)) \<Rightarrow>
            (case DownloadComponent h ctx cmd (HelperFindBySystemIdtf ctx idtf) w4 of
               None \<Rightarrow> None
             | Some (Inl e) \<Rightarrow> Some (Inl e)
             | Some (Inr w5) \<Rightarrow> Execute_for exec h ctx cmd rest w5))"
  by (simp add: ValidateComponent_validated SC_LOG_eq add_log_add_log accepted_log_def Let_def)

lemma Execute_for_all_unresolved:
  "\<forall>idtf\<in>set ids. \<not> IsValid (HelperFindBySystemIdtf ctx idtf) \<Longrightarrow>
   Execute_for exec h ctx cmd ids w = Some (Inr (add_log (concat (map unresolved_log ids)) w))"
proof (induction ids arbitrary: w)
  case Nil
  show ?case by (simp add: add_log_Nil)
next
  case (Cons idtf ids)
  then show ?case
    by (simp add: Execute_for_unresolved add_log_add_log del: Execute_for.simps)
qed

text \<open>
  Claim C9. An identifier that resolves to no component is rejected by the validation:
  \<^verbatim>\<open>Execute\<close> logs the warning of the validation and its own and goes on with the rest of
  the request, from a state that differs in the log only. When no identifier of the
  request resolves, \<^verbatim>\<open>Execute\<close> returns the empty plan, and the disk and the effects
  (directories, processes, loader calls) are as they were.
\<close>

theorem Execute_unresolved_identifier:
  "(\<not> IsValid (HelperFindBySystemIdtf ctx idtf) \<longrightarrow>
      Execute_for exec h ctx cmd (idtf # rest) w
        = Execute_for exec h ctx cmd rest (add_log (unresolved_log idtf) w))
   \<and> ((\<forall>idtf\<in>set ids. \<not> IsValid (HelperFindBySystemIdtf ctx idtf)) \<longrightarrow>
        (\<exists>w'. Execute (Suc n) h ctx cmd [PARAMETER_NAME cmd \<mapsto> ids] w = Some (Inr ([], w'))
              \<and> disk w' = disk w \<and> effects w' = effects w
              \<and> logged w' = logged w @ concat (map unresolved_log ids)))"
proof (intro conjI impI)
  assume "\<not> IsValid (HelperFindBySystemIdtf ctx idtf)"
  then show "Execute_for exec h ctx cmd (idtf # rest) w
        = Execute_for exec h ctx cmd rest (add_log (unresolved_log idtf) w)"
    by (rule Execute_for_unresolved)
next
  assume "\<forall>idtf\<in>set ids. \<not> IsValid (HelperFindBySystemIdtf ctx idtf)"
  then have "Execute (Suc n) h ctx cmd [PARAMETER_NAME cmd \<mapsto> ids] w
               = Some (Inr ([], add_log (concat (map unresolved_log ids)) w))"
    by (simp add: Execute_body_def Execute_for_all_unresolved)
  then show "\<exists>w'. Execute (Suc n) h ctx cmd [PARAMETER_NAME cmd \<mapsto> ids] w = Some (Inr ([], w'))
              \<and> disk w' = disk w \<and> effects w' = effects w
              \<and> logged w' = logged w @ concat (map unresolved_log ids)"
    by (simp add: add_log_def)
qed

text \<open>
  Claim C10. For a component that passes the validation, whatever plan
  \<^verbatim>\<open>InstallDependencies\<close> returns, the empty one of a failed dependency too, \<^verbatim>\<open>Execute\<close>
  goes on with \<^verbatim>\<open>DownloadComponent\<close> for the component, in the state the dependencies
  left; the plan is used nowhere.
\<close>

theorem Execute_for_downloads_whatever_the_plan:
  assumes "c = HelperFindBySystemIdtf ctx idtf"
      and "validated ctx c"
      and "InstallDependencies exec ctx cmd c (add_log (accepted_log idtf) w)
             = Some (Inr (plan, w4))"
  shows "Execute_for exec h ctx cmd (idtf # rest) w
           = (case DownloadComponent h ctx cmd c w4 of
                None \<Rightarrow> None
              | Some (Inl e) \<Rightarrow> Some (Inl e)
              | Some (Inr w5) \<Rightarrow> Execute_for exec h ctx cmd rest w5)"
  using assms by (simp add: Execute_for_validated del: Execute_for.simps)

lemma InstallDependencies_for_append:
  "InstallDependencies_for exec ctx cmd earlier result w = Some (Inr (plan, w1)) \<Longrightarrow>
   earlier = [] \<or> plan \<noteq> [] \<Longrightarrow>
   InstallDependencies_for exec ctx cmd (earlier @ rest) result w
     = InstallDependencies_for exec ctx cmd rest plan w1"
proof (induction earlier arbitrary: result w)
  case Nil
  then show ?case by simp
next
  case (Cons d earlier)
  then show ?case
    by (auto simp add: Let_def split: option.splits sum.splits prod.splits if_splits)
qed

lemma InstallDependencies_for_Cons:
  "InstallDependencies_for exec ctx cmd (d # rest) result w =
     (case exec [PARAMETER_NAME cmd \<mapsto> [HelperGetSystemIdtf ctx d]]
             (add_log (dependency_log (HelperGetSystemIdtf ctx d)) w) of
        None \<Rightarrow> None
      | Some (Inl e) \<Rightarrow> Some (Inl e)
      | Some (Inr (dependencyResult, w2)) \<Rightarrow>
          if dependencyResult = []
          then Some (Inr ([], add_log (not_installed_log (HelperGetSystemIdtf ctx d)) w2))
          else InstallDependencies_for exec ctx cmd rest (dependencyResult @ result) w2)"
  by (simp add: Let_def SC_LOG_eq dependency_log_def not_installed_log_def
        split: option.splits sum.splits prod.splits)

lemma InstallDependencies_eq:
  "InstallDependencies exec ctx cmd c w
     = InstallDependencies_for exec ctx cmd (component_dependencies ctx c) []
         (add_log (lookup_log (GetComponentDependencies ctx c)) w)"
  by (simp add: InstallDependencies_def try_ScException_eq component_dependencies_def)

lemma effects_add_log: "effects (add_log ls w) = effects w"
  by (simp add: add_log_def)

lemma ValidateComponent_add_log:
  "\<exists>ls. ValidateComponent ctx c w = (validated ctx c, add_log ls w)"
  by (auto simp add: ValidateComponent_eq validated_def)

lemma Execute_for_rejected_log:
  assumes "\<not> validated ctx (HelperFindBySystemIdtf ctx idtf)"
  shows "\<exists>ls. \<forall>exec. Execute_for exec h ctx cmd (idtf # rest) w
                  = Execute_for exec h ctx cmd rest (add_log ls w)"
proof -
  let ?w1 = "add_log [(DEBUG, ''Validating component '' @ quote @ idtf)] w"
  from ValidateComponent_add_log [of ctx "HelperFindBySystemIdtf ctx idtf" ?w1] assms
  obtain ls where "ValidateComponent ctx (HelperFindBySystemIdtf ctx idtf) ?w1
                     = (False, add_log ls ?w1)"
    by auto
  then have "\<forall>exec. Execute_for exec h ctx cmd (idtf # rest) w
          = Execute_for exec h ctx cmd rest
              (add_log ([(DEBUG, ''Validating component '' @ quote @ idtf)] @ ls
                          @ [(WARNING, ''Unable to install component '' @ quote @ idtf)]) w)"
    by (simp add: Let_def SC_LOG_eq add_log_add_log)
  then show ?thesis by blast
qed

lemma InstallDependencies_for_effects:
  "effects_grow exec \<Longrightarrow>
   InstallDependencies_for exec ctx cmd ds acc w = Some (Inr (plan, w')) \<Longrightarrow>
   prefix (effects w) (effects w')"
proof (induction ds arbitrary: acc w)
  case Nil
  then show ?case by simp
next
  case (Cons d ds)
  let ?p = "[PARAMETER_NAME cmd \<mapsto> [HelperGetSystemIdtf ctx d]]"
  let ?w1 = "add_log (dependency_log (HelperGetSystemIdtf ctx d)) w"
  from Cons.prems(2) obtain dr w2 where x: "exec ?p ?w1 = Some (Inr (dr, w2))"
    by (auto simp add: InstallDependencies_for_Cons simp del: InstallDependencies_for.simps
          split: option.splits sum.splits)
  with Cons.prems(1) have step: "prefix (effects w) (effects w2)"
    unfolding effects_grow_def using effects_add_log by metis
  show ?case
  proof (cases "dr = []")
    case True
    with x Cons.prems(2) have "w' = add_log (not_installed_log (HelperGetSystemIdtf ctx d)) w2"
      by (simp add: InstallDependencies_for_Cons del: InstallDependencies_for.simps)
    with step show ?thesis by (simp add: effects_add_log)
  next
    case False
    with x Cons.prems(2)
    have "InstallDependencies_for exec ctx cmd ds (dr @ acc) w2 = Some (Inr (plan, w'))"
      by (simp add: InstallDependencies_for_Cons del: InstallDependencies_for.simps)
    from Cons.IH [OF Cons.prems(1) this] step show ?thesis
      by (rule prefix_order.trans [rotated])
  qed
qed

lemma DownloadComponent_effects:
  "DownloadComponent h ctx cmd c w = Some (Inr w') \<Longrightarrow> prefix (effects w) (effects w')"
  by (auto simp add: DownloadComponent_eq Let_def effects_add_log effects_load_entries
        ScExec_def sc_fs_mkdirs_def add_log_def
        split: if_splits sum.splits option.splits)

lemma Execute_for_effects:
  "effects_grow exec \<Longrightarrow> Execute_for exec h ctx cmd ids w = Some (Inr w') \<Longrightarrow>
   prefix (effects w) (effects w')"
proof (induction ids arbitrary: w)
  case Nil
  then show ?case by simp
next
  case (Cons idtf ids)
  let ?c = "HelperFindBySystemIdtf ctx idtf"
  show ?case
  proof (cases "validated ctx ?c")
    case False
    from Execute_for_rejected_log [OF this, of h cmd ids w] obtain ls where
      ls: "\<And>exec. Execute_for exec h ctx cmd (idtf # ids) w
                    = Execute_for exec h ctx cmd ids (add_log ls w)"
      by blast
    from Cons.prems(2) have "Execute_for exec h ctx cmd ids (add_log ls w) = Some (Inr w')"
      by (simp only: ls)
    from Cons.IH [OF Cons.prems(1) this] show ?thesis
      by (simp add: effects_add_log)
  next
    case True
    let ?w3 = "add_log (accepted_log idtf) w"
    from Cons.prems(2) True obtain p w4 where
      x: "InstallDependencies exec ctx cmd ?c ?w3 = Some (Inr (p, w4))"
      by (auto simp add: Execute_for_validated simp del: Execute_for.simps
            split: option.splits sum.splits)
    from x Cons.prems(2) True obtain w5 where
      y: "DownloadComponent h ctx cmd ?c w4 = Some (Inr w5)"
      by (auto simp add: Execute_for_validated simp del: Execute_for.simps
            split: option.splits sum.splits)
    from x y Cons.prems(2) True have z: "Execute_for exec h ctx cmd ids w5 = Some (Inr w')"
      by (simp add: Execute_for_validated del: Execute_for.simps)
    from x have "prefix (effects ?w3) (effects w4)"
      unfolding InstallDependencies_eq
      using InstallDependencies_for_effects [OF Cons.prems(1)] effects_add_log by metis
    then have "prefix (effects w) (effects w4)" by (simp add: effects_add_log)
    also have "prefix (effects w4) (effects w5)" using y by (rule DownloadComponent_effects)
    also have "prefix (effects w5) (effects w')" using Cons.IH [OF Cons.prems(1) z] .
    finally show ?thesis .
  qed
qed

lemma Execute_effects_grow: "effects_grow (Execute n h ctx cmd)"
proof (induction n)
  case 0
  show ?case by (simp add: effects_grow_def)
next
  case (Suc n)
  show ?case
    unfolding effects_grow_def
  proof (intro allI impI)
    fix p w plan w'
    assume "Execute (Suc n) h ctx cmd p w = Some (Inr (plan, w'))"
    then have e: "Execute_body (Execute n h ctx cmd) h ctx cmd p w = Some (Inr (plan, w'))"
      by (simp only: Execute.simps)
    show "prefix (effects w) (effects w')"
    proof (cases "p (PARAMETER_NAME cmd)")
      case None
      with e show ?thesis by (auto simp add: Execute_body_def SC_LOG_eq effects_add_log)
    next
      case (Some ids)
      with e have "Execute_for (Execute n h ctx cmd) h ctx cmd ids w = Some (Inr w')"
        by (auto simp add: Execute_body_def split: option.splits sum.splits)
      from Execute_for_effects [OF Suc this] show ?thesis .
    qed
  qed
qed

text \<open>
  Claim C3. In the loop of \<^verbatim>\<open>InstallDependencies\<close>, for any function in the place of the
  recursive install: when the dependencies before \<open>d\<close> gave plans that are not empty and
  the install of \<open>d\<close> gives the empty plan, the loop returns the empty plan at once. The
  dependencies after \<open>d\<close> have no part in the result, and the state is the one the install
  of \<open>d\<close> returned, with one more log line. Nothing is rolled back: under an install
  function that only adds effects, as \<^verbatim>\<open>Execute\<close> is (\<open>Execute_effects_grow\<close>), the effects of
  the earlier installs are still in that state.
\<close>

theorem InstallDependencies_for_aborts_on_empty_plan:
  assumes "InstallDependencies_for exec ctx cmd earlier [] w = Some (Inr (plan, w1))"
      and "earlier = [] \<or> plan \<noteq> []"
      and "exec [PARAMETER_NAME cmd \<mapsto> [HelperGetSystemIdtf ctx d]]
             (add_log (dependency_log (HelperGetSystemIdtf ctx d)) w1) = Some (Inr ([], w2))"
  shows "InstallDependencies_for exec ctx cmd (earlier @ d # remaining) [] w
           = Some (Inr ([], add_log (not_installed_log (HelperGetSystemIdtf ctx d)) w2))
         \<and> (effects_grow exec \<longrightarrow>
              prefix (effects w) (effects w1) \<and> prefix (effects w1) (effects w2)
              \<and> effects (add_log (not_installed_log (HelperGetSystemIdtf ctx d)) w2) = effects w2)"
proof (intro conjI impI)
  have "InstallDependencies_for exec ctx cmd (earlier @ d # remaining) [] w
          = InstallDependencies_for exec ctx cmd (d # remaining) plan w1"
    using assms(1,2) by (rule InstallDependencies_for_append)
  also have "\<dots> = Some (Inr ([], add_log (not_installed_log (HelperGetSystemIdtf ctx d)) w2))"
    using assms(3) by (simp add: SC_LOG_eq dependency_log_def not_installed_log_def)
  finally show "InstallDependencies_for exec ctx cmd (earlier @ d # remaining) [] w
           = Some (Inr ([], add_log (not_installed_log (HelperGetSystemIdtf ctx d)) w2))" .
next
  assume g: "effects_grow exec"
  from InstallDependencies_for_effects [OF g assms(1)]
  show "prefix (effects w) (effects w1)" .
  from g assms(3) show "prefix (effects w1) (effects w2)"
    unfolding effects_grow_def using effects_add_log by metis
next
  show "effects (add_log (not_installed_log (HelperGetSystemIdtf ctx d)) w2) = effects w2"
    by (rule effects_add_log)
qed

lemma Execute_plan_empty:
  "Execute n h ctx cmd commandParameters w = Some (Inr (plan, w')) \<Longrightarrow> plan = []"
  by (cases n) (auto simp add: Execute_body_def split: option.splits sum.splits)

lemmas example_log_defs = unresolved_log_def accepted_log_def dependency_log_def
  not_installed_log_def quote_def

theorem Execute_unresolved_identifier_witness:
  "\<not> IsValid (HelperFindBySystemIdtf (example_store (\<lambda>c. Inr [])) ''X'')
   \<and> Execute_for (Execute 0 example_host (example_store (\<lambda>c. Inr [])) example_command)
        example_host (example_store (\<lambda>c. Inr [])) example_command
        [''X'', ''A''] example_world
       = Execute_for (Execute 0 example_host (example_store (\<lambda>c. Inr [])) example_command)
           example_host (example_store (\<lambda>c. Inr [])) example_command
           [''A''] (add_log (unresolved_log ''X'') example_world)
   \<and> \<not> IsValid (HelperFindBySystemIdtf (example_store (\<lambda>c. Inr [])) ''Y'')
   \<and> (\<exists>w'. Execute (Suc 0) example_host (example_store (\<lambda>c. Inr [])) example_command
               [PARAMETER_NAME example_command \<mapsto> [''X'', ''Y'']] example_world
             = Some (Inr ([], w'))
           \<and> disk w' = disk example_world \<and> effects w' = effects example_world
           \<and> logged w' = logged example_world @ concat (map unresolved_log [''X'', ''Y'']))"
proof -
  have h1: "\<not> IsValid (HelperFindBySystemIdtf (example_store (\<lambda>c. Inr [])) ''X'')"
    by (simp add: example_defs)
  have h2: "\<forall>idtf\<in>set [''X'', ''Y''].
              \<not> IsValid (HelperFindBySystemIdtf (example_store (\<lambda>c. Inr [])) idtf)"
    by (simp add: example_defs)
  have h3: "\<not> IsValid (HelperFindBySystemIdtf (example_store (\<lambda>c. Inr [])) ''Y'')"
    by (simp add: example_defs)
  show ?thesis
    using h1 h2 h3
      Execute_unresolved_identifier
        [of "example_store (\<lambda>c. Inr [])" "''X''"
            "Execute 0 example_host (example_store (\<lambda>c. Inr [])) example_command"
            example_host example_command "[''A'']"
            example_world "[''X'', ''Y'']" 0]
    by blast
qed

lemmas example_exec_defs = example_run_defs example_log_defs example_dependencies_def
  validated_def

lemma example_dependency_C_fails:
  "InstallDependencies
     (Execute (Suc 0) example_host (example_store (example_dependencies [(1, [3, 2])]))
        example_command)
     (example_store (example_dependencies [(1, [3, 2])])) example_command 1
     (add_log (accepted_log ''A'') example_world)
   = Some (Inr ([], add_log (accepted_log ''A'' @ dependency_log ''C''
                             @ [(DEBUG, ''Validating component '' @ quote @ ''C''),
                                (WARNING, ''Component is not a reusable component.''),
                                (WARNING, ''Unable to install component '' @ quote @ ''C'')]
                             @ not_installed_log ''C'') example_world))"
  by (simp add: InstallDependencies_def try_ScException_eq ValidateComponent_eq Execute_body_def
        SC_LOG_eq add_log_add_log example_exec_defs Let_def)

theorem Execute_for_downloads_whatever_the_plan_witness:
  "1 = HelperFindBySystemIdtf (example_store (example_dependencies [(1, [3, 2])])) ''A''
   \<and> validated (example_store (example_dependencies [(1, [3, 2])])) 1
   \<and> map_option (map_sum id (\<lambda>(plan, w). (plan, effects w)))
       (InstallDependencies
          (Execute (Suc 0) example_host (example_store (example_dependencies [(1, [3, 2])]))
             example_command)
          (example_store (example_dependencies [(1, [3, 2])])) example_command 1
          (add_log (accepted_log ''A'') example_world))
       = Some (Inr ([], []))
   \<and> map_option (map_sum id effects)
       (Execute_for
          (Execute (Suc 0) example_host (example_store (example_dependencies [(1, [3, 2])]))
             example_command)
          example_host (example_store (example_dependencies [(1, [3, 2])])) example_command
          [''A''] example_world)
       = Some (Inr [Mkdirs ''/specs/A'',
                    Exec [''cd'', ''/specs/A'', ''&&'', ''git clone '', ''https://github.com/o/A''],
                    LoadScsFile ''/specs/A/A/main.scs'',
                    LoadScsFile ''/specs/A/A/notes.scs.bak''])"
proof -
  let ?ctx = "example_store (example_dependencies [(1, [3, 2])])"
  have h1: "1 = HelperFindBySystemIdtf ?ctx ''A''"
    by (simp add: example_defs)
  have h2: "validated ?ctx 1"
    by (simp add: example_exec_defs)
  note h3 = example_dependency_C_fails
  have "Execute_for (Execute (Suc 0) example_host ?ctx example_command) example_host ?ctx
          example_command [''A''] example_world
        = (case DownloadComponent example_host ?ctx example_command 1
                  (add_log (accepted_log ''A'' @ dependency_log ''C''
                             @ [(DEBUG, ''Validating component '' @ quote @ ''C''),
                                (WARNING, ''Component is not a reusable component.''),
                                (WARNING, ''Unable to install component '' @ quote @ ''C'')]
                             @ not_installed_log ''C'') example_world) of
             None \<Rightarrow> None
           | Some (Inl e) \<Rightarrow> Some (Inl e)
           | Some (Inr w5) \<Rightarrow>
               Execute_for (Execute (Suc 0) example_host ?ctx example_command) example_host ?ctx
                 example_command [] w5)"
    by (rule Execute_for_downloads_whatever_the_plan [OF h1 h2 h3])
  then show ?thesis
    using h1 h2 h3
    by (simp add: DownloadComponent_eq example_exec_defs Let_def del: Execute_for.simps(2))
qed

theorem InstallDependencies_for_aborts_on_empty_plan_witness:
  "InstallDependencies_for
     (\<lambda>p w. Some (Inr (if p ''idtf'' = Some [''A''] then [''A''] else [], w)))
     (example_store (\<lambda>c. Inr [])) example_command [1] [] example_world
     = Some (Inr ([''A''], add_log (dependency_log ''A'') example_world))
   \<and> [''A''] \<noteq> ([] :: string list)
   \<and> (\<lambda>p w. Some (Inr (if p ''idtf'' = Some [''A''] then [''A''] else [], w)))
        [PARAMETER_NAME example_command
           \<mapsto> [HelperGetSystemIdtf (example_store (\<lambda>c. Inr [])) 3]]
        (add_log (dependency_log (HelperGetSystemIdtf (example_store (\<lambda>c. Inr [])) 3))
           (add_log (dependency_log ''A'') example_world))
       = Some (Inr ([], add_log (dependency_log ''A'' @ dependency_log ''C'') example_world))
   \<and> effects_grow
       (\<lambda>p (w :: string list world).
          Some (Inr (if p ''idtf'' = Some [''A''] then [''A''] else [], w)))
   \<and> InstallDependencies_for
       (\<lambda>p w. Some (Inr (if p ''idtf'' = Some [''A''] then [''A''] else [], w)))
       (example_store (\<lambda>c. Inr [])) example_command ([1] @ 3 # [2]) [] example_world
       = Some (Inr ([], add_log (not_installed_log
                                   (HelperGetSystemIdtf (example_store (\<lambda>c. Inr [])) 3))
                          (add_log (dependency_log ''A'' @ dependency_log ''C'') example_world)))
   \<and> prefix (effects example_world)
        (effects (add_log (dependency_log ''A'' @ dependency_log ''C'') example_world))"
proof -
  let ?exec = "\<lambda>(p :: CommandParameters) (w :: string list world).
                 Some (Inr (if p ''idtf'' = Some [''A''] then [''A''] else [], w))
                   :: string list outcome"
  let ?ctx = "example_store (\<lambda>c. Inr [])"
  have h1: "InstallDependencies_for ?exec ?ctx example_command [1] [] example_world
              = Some (Inr ([''A''], add_log (dependency_log ''A'') example_world))"
    by (simp add: SC_LOG_eq example_exec_defs Let_def)
  have h2: "[1 :: ScAddr] = [] \<or> [''A''] \<noteq> ([] :: string list)"
    by simp
  have h3: "?exec [PARAMETER_NAME example_command \<mapsto> [HelperGetSystemIdtf ?ctx 3]]
              (add_log (dependency_log (HelperGetSystemIdtf ?ctx 3))
                 (add_log (dependency_log ''A'') example_world))
            = Some (Inr ([], add_log (dependency_log ''A'' @ dependency_log ''C'') example_world))"
    by (simp add: add_log_add_log example_store_def example_command_def)
  have h4: "effects_grow ?exec"
    by (simp add: effects_grow_def)
  have h5: "[''A''] \<noteq> ([] :: string list)"
    by simp
  show ?thesis
    using h1 h3 h4 h5 InstallDependencies_for_aborts_on_empty_plan [OF h1 h2 h3, of "[2]"]
    by (simp add: effects_add_log)
qed

theorem Execute_aborts_after_rejected_dependency:
  "map_option (map_sum id (\<lambda>(plan, w). (plan, effects w)))
     (InstallDependencies_for
        (Execute (Suc 0) example_host (example_store (example_dependencies [(1, [3, 2])]))
           example_command)
        (example_store (example_dependencies [(1, [3, 2])])) example_command [3, 2] []
        example_world)
     = Some (Inr ([], []))"
  by (simp add: ValidateComponent_eq Execute_body_def SC_LOG_eq add_log_add_log
        example_exec_defs Let_def)

text \<open>
  Claim C1 says that the plan holds the identifiers of the installed dependencies. The
  variable \<^verbatim>\<open>result\<close> of \<^verbatim>\<open>Execute\<close> is returned as it was declared, so every plan is empty
  (\<open>Execute_plan_empty\<close>). Here \<open>A\<close> depends on \<open>B\<close>, both are complete, \<open>B\<close> is fetched and
  loaded and then \<open>A\<close>, and the plan is empty.
\<close>

theorem Execute_returns_no_plan_for_installed_dependency:
  "map_option (map_sum id (\<lambda>(plan, w). (plan, effects w)))
     (Execute (Suc (Suc 0)) example_host (example_store (example_dependencies [(1, [2])]))
        example_command [''idtf'' \<mapsto> [''A'']] example_world)
     = Some (Inr ([],
          [Mkdirs ''/specs/B'',
           Exec [''cd'', ''/specs/B'', ''&&'', ''git clone '', ''https://github.com/o/B''],
           LoadScsFile ''/specs/B/B/main.scs'',
           LoadScsFile ''/specs/B/B/notes.scs.bak'',
           Mkdirs ''/specs/A'',
           Exec [''cd'', ''/specs/A'', ''&&'', ''git clone '', ''https://github.com/o/A''],
           LoadScsFile ''/specs/A/A/main.scs'',
           LoadScsFile ''/specs/A/A/notes.scs.bak'']))"
  by (simp add: InstallDependencies_def try_ScException_eq ValidateComponent_eq Execute_body_def
        DownloadComponent_eq SC_LOG_eq add_log_add_log example_exec_defs Let_def)

section \<open>Termination\<close>

lemma InstallDependencies_for_mono:
  "le_exec e e' \<Longrightarrow> InstallDependencies_for e ctx cmd ds acc w = Some r \<Longrightarrow>
   InstallDependencies_for e' ctx cmd ds acc w = Some r"
proof (induction ds arbitrary: acc w)
  case Nil
  then show ?case by simp
next
  case (Cons d ds)
  let ?p = "[PARAMETER_NAME cmd \<mapsto> [HelperGetSystemIdtf ctx d]]"
  let ?w1 = "add_log (dependency_log (HelperGetSystemIdtf ctx d)) w"
  from Cons.prems(2) obtain x where x: "e ?p ?w1 = Some x"
    by (cases "e ?p ?w1") (simp_all add: InstallDependencies_for_Cons del: InstallDependencies_for.simps)
  with Cons.prems(1) have x': "e' ?p ?w1 = Some x"
    by (simp add: le_exec_def)
  show ?case
  proof (cases x)
    case (Inl ex)
    with x x' Cons.prems(2) show ?thesis
      by (auto simp add: InstallDependencies_for_Cons simp del: InstallDependencies_for.simps)
  next
    case (Inr pw)
    obtain dr w2 where pw: "pw = (dr, w2)" by (cases pw)
    show ?thesis
    proof (cases "dr = []")
      case True
      with x x' Inr pw Cons.prems(2) show ?thesis
        by (auto simp add: InstallDependencies_for_Cons simp del: InstallDependencies_for.simps)
    next
      case False
      with x Inr pw Cons.prems(2)
      have "InstallDependencies_for e ctx cmd ds (dr @ acc) w2 = Some r"
        by (simp add: InstallDependencies_for_Cons del: InstallDependencies_for.simps)
      from Cons.IH [OF Cons.prems(1) this] x' Inr pw False show ?thesis
        by (simp add: InstallDependencies_for_Cons del: InstallDependencies_for.simps)
    qed
  qed
qed

lemma InstallDependencies_mono:
  "le_exec e e' \<Longrightarrow> InstallDependencies e ctx cmd c w = Some r \<Longrightarrow>
   InstallDependencies e' ctx cmd c w = Some r"
  by (auto simp add: InstallDependencies_def split: prod.splits
        intro: InstallDependencies_for_mono)

lemma Execute_for_rejected:
  "\<not> validated ctx (HelperFindBySystemIdtf ctx idtf) \<Longrightarrow>
   \<exists>w'. \<forall>exec. Execute_for exec h ctx cmd (idtf # rest) w = Execute_for exec h ctx cmd rest w'"
proof -
  assume a: "\<not> validated ctx (HelperFindBySystemIdtf ctx idtf)"
  let ?w1 = "SC_LOG DEBUG (''Validating component '' @ quote @ idtf) w"
  obtain ok w2 where v: "ValidateComponent ctx (HelperFindBySystemIdtf ctx idtf) ?w1 = (ok, w2)"
    by (cases "ValidateComponent ctx (HelperFindBySystemIdtf ctx idtf) ?w1")
  with a fst_ValidateComponent [of ctx "HelperFindBySystemIdtf ctx idtf" ?w1] have "\<not> ok"
    by simp
  with v have "\<forall>exec. Execute_for exec h ctx cmd (idtf # rest) w
          = Execute_for exec h ctx cmd rest
              (SC_LOG WARNING (''Unable to install component '' @ quote @ idtf) w2)"
    by (simp add: Let_def)
  then show ?thesis by blast
qed

lemma Execute_for_mono:
  "le_exec e e' \<Longrightarrow> Execute_for e h ctx cmd ids w = Some r \<Longrightarrow>
   Execute_for e' h ctx cmd ids w = Some r"
proof (induction ids arbitrary: w)
  case Nil
  then show ?case by simp
next
  case (Cons idtf ids)
  let ?c = "HelperFindBySystemIdtf ctx idtf"
  show ?case
  proof (cases "validated ctx ?c")
    case False
    from Execute_for_rejected [OF this, of h cmd ids w] obtain w' where
      w': "\<And>exec. Execute_for exec h ctx cmd (idtf # ids) w = Execute_for exec h ctx cmd ids w'"
      by blast
    from Cons.prems(2) have "Execute_for e h ctx cmd ids w' = Some r"
      by (simp only: w')
    from Cons.IH [OF Cons.prems(1) this] show ?thesis
      by (simp only: w')
  next
    case True
    let ?w3 = "add_log (accepted_log idtf) w"
    from Cons.prems(2) True obtain x where x: "InstallDependencies e ctx cmd ?c ?w3 = Some x"
      by (cases "InstallDependencies e ctx cmd ?c ?w3")
         (simp_all add: Execute_for_validated del: Execute_for.simps)
    from InstallDependencies_mono [OF Cons.prems(1) this]
    have x': "InstallDependencies e' ctx cmd ?c ?w3 = Some x" .
    show ?thesis
    proof (cases x)
      case (Inl ex)
      with x x' True Cons.prems(2) show ?thesis
        by (auto simp add: Execute_for_validated simp del: Execute_for.simps)
    next
      case (Inr pw)
      obtain p w4 where pw: "pw = (p, w4)" by (cases pw)
      show ?thesis
      proof (cases "DownloadComponent h ctx cmd ?c w4")
        case None
        with x Inr pw True Cons.prems(2) show ?thesis
          by (simp add: Execute_for_validated del: Execute_for.simps)
      next
        case (Some y)
        show ?thesis
        proof (cases y)
          case (Inl ex)
          with Some x x' Inr pw True Cons.prems(2) show ?thesis
            by (auto simp add: Execute_for_validated simp del: Execute_for.simps)
        next
          case y: (Inr w5)
          with Some x Inr pw True Cons.prems(2)
          have "Execute_for e h ctx cmd ids w5 = Some r"
            by (simp add: Execute_for_validated del: Execute_for.simps)
          from Cons.IH [OF Cons.prems(1) this] Some x' Inr pw True y show ?thesis
            by (simp add: Execute_for_validated del: Execute_for.simps)
        qed
      qed
    qed
  qed
qed

lemma Execute_body_mono:
  "le_exec e e' \<Longrightarrow> Execute_body e h ctx cmd p w = Some r \<Longrightarrow>
   Execute_body e' h ctx cmd p w = Some r"
  by (auto simp add: Execute_body_def split: option.splits sum.splits
        dest: Execute_for_mono)

lemma Execute_mono_Suc: "le_exec (Execute n h ctx cmd) (Execute (Suc n) h ctx cmd)"
proof (induction n)
  case 0
  show ?case by (simp add: le_exec_def)
next
  case (Suc n)
  show ?case
    unfolding le_exec_def
  proof (intro allI impI)
    fix p w r
    assume "Execute (Suc n) h ctx cmd p w = Some r"
    then have "Execute_body (Execute n h ctx cmd) h ctx cmd p w = Some r"
      by (simp only: Execute.simps)
    from Execute_body_mono [OF Suc this]
    show "Execute (Suc (Suc n)) h ctx cmd p w = Some r"
      by (simp only: Execute.simps(2) [of "Suc n"])
  qed
qed

lemma le_exec_refl: "le_exec e e"
  by (simp add: le_exec_def)

lemma le_exec_trans: "le_exec e1 e2 \<Longrightarrow> le_exec e2 e3 \<Longrightarrow> le_exec e1 e3"
  by (simp add: le_exec_def)

lemma Execute_mono: "n \<le> m \<Longrightarrow> le_exec (Execute n h ctx cmd) (Execute m h ctx cmd)"
proof (induction m)
  case 0
  then show ?case by (simp add: le_exec_refl)
next
  case (Suc m)
  show ?case
  proof (cases "n = Suc m")
    case True
    then show ?thesis by (simp add: le_exec_refl)
  next
    case False
    with Suc.prems have "n \<le> m" by simp
    from le_exec_trans [OF Suc.IH [OF this] Execute_mono_Suc] show ?thesis .
  qed
qed

lemma DownloadComponent_returns_if_free:
  assumes "find_str (address_content ctx c) (GITHUB_PREFIX cmd) \<noteq> None"
      and "rfind_char (address_content ctx c) CHR ''/'' = Some i"
      and "segment = drop i (address_content ctx c)"
      and "root = m_specificationsPath cmd"
      and "\<not> stat_ok h (disk w) (staging_name root segment k)"
  shows "DownloadComponent h ctx cmd c w \<noteq> None"
proof -
  let ?content = "address_content ctx c"
  have sub: "substr ?content (rfind_char ?content CHR ''/'') = Inr segment"
    using assms(2,3) rfind_char_less [OF assms(2)] by (simp add: substr_def)
  from assms(5) have "\<not> stat_ok h (disk w) ((root @ segment) @ concat (replicate k segment))"
    by (simp add: staging_name_def)
  from free_dir_name_first
         [of "stat_ok h (disk w)" "root @ segment" k segment, OF this] obtain name where
    "free_dir_name (stat_ok h (disk w)) segment (root @ segment) = Some name"
    by blast
  then show ?thesis
    using assms(1,4) sub
    by (simp add: DownloadComponent_eq Let_def split: option.splits)
qed

lemma DownloadComponent_returns:
  assumes "always_free_name h"
  shows "DownloadComponent h ctx cmd c w \<noteq> None"
proof (cases "find_str (address_content ctx c) (GITHUB_PREFIX cmd) = None")
  case True
  then show ?thesis by (simp add: DownloadComponent_unrecognized)
next
  case False
  let ?content = "address_content ctx c"
  show ?thesis
  proof (cases "rfind_char ?content CHR ''/''")
    case None
    with False show ?thesis by (simp add: DownloadComponent_eq substr_def)
  next
    case (Some i)
    from rfind_char_less [OF Some] have "drop i ?content \<noteq> []" by simp
    with assms obtain k where
      "\<not> stat_ok h (disk w) (staging_name (m_specificationsPath cmd) (drop i ?content) k)"
      unfolding always_free_name_def by blast
    from DownloadComponent_returns_if_free [OF _ Some refl refl this] False
    show ?thesis by auto
  qed
qed

lemma InstallDependencies_for_returns:
  assumes "\<forall>d\<in>set ds. \<forall>w. \<exists>n.
             Execute n h ctx cmd [PARAMETER_NAME cmd \<mapsto> [HelperGetSystemIdtf ctx d]] w \<noteq> None"
  shows "\<exists>n. InstallDependencies_for (Execute n h ctx cmd) ctx cmd ds acc w \<noteq> None"
  using assms
proof (induction ds arbitrary: acc w)
  case Nil
  show ?case by simp
next
  case (Cons d ds)
  let ?p = "[PARAMETER_NAME cmd \<mapsto> [HelperGetSystemIdtf ctx d]]"
  let ?w1 = "add_log (dependency_log (HelperGetSystemIdtf ctx d)) w"
  from Cons.prems obtain n1 x where x: "Execute n1 h ctx cmd ?p ?w1 = Some x"
    by fastforce
  show ?case
  proof (cases x)
    case (Inl ex)
    with x have "InstallDependencies_for (Execute n1 h ctx cmd) ctx cmd (d # ds) acc w \<noteq> None"
      by (simp add: InstallDependencies_for_Cons del: InstallDependencies_for.simps)
    then show ?thesis by blast
  next
    case (Inr pw)
    obtain dr w2 where pw: "pw = (dr, w2)" by (cases pw)
    show ?thesis
    proof (cases "dr = []")
      case True
      with x Inr pw
      have "InstallDependencies_for (Execute n1 h ctx cmd) ctx cmd (d # ds) acc w \<noteq> None"
        by (simp add: InstallDependencies_for_Cons del: InstallDependencies_for.simps)
      then show ?thesis by blast
    next
      case False
      from Cons.prems have "\<forall>d\<in>set ds. \<forall>w. \<exists>n.
             Execute n h ctx cmd [PARAMETER_NAME cmd \<mapsto> [HelperGetSystemIdtf ctx d]] w \<noteq> None"
        by (meson list.set_intros(2))
      from Cons.IH [OF this, of "dr @ acc" w2] obtain n2 y where
        y: "InstallDependencies_for (Execute n2 h ctx cmd) ctx cmd ds (dr @ acc) w2 = Some y"
        by fastforce
      let ?n = "max n1 n2"
      have "Execute ?n h ctx cmd ?p ?w1 = Some x"
        using Execute_mono [of n1 ?n h ctx cmd] x by (simp add: le_exec_def)
      moreover have "InstallDependencies_for (Execute ?n h ctx cmd) ctx cmd ds (dr @ acc) w2 = Some y"
        using InstallDependencies_for_mono [OF Execute_mono y, of ?n] by simp
      ultimately
      have "InstallDependencies_for (Execute ?n h ctx cmd) ctx cmd (d # ds) acc w \<noteq> None"
        using Inr pw False
        by (simp add: InstallDependencies_for_Cons del: InstallDependencies_for.simps)
      then show ?thesis by blast
    qed
  qed
qed

lemma Execute_for_returns:
  assumes "always_free_name h"
      and "\<forall>idtf\<in>set ids. validated ctx (HelperFindBySystemIdtf ctx idtf) \<longrightarrow>
             (\<forall>w. \<exists>n. InstallDependencies (Execute n h ctx cmd) ctx cmd
                          (HelperFindBySystemIdtf ctx idtf) w \<noteq> None)"
  shows "\<exists>n. Execute_for (Execute n h ctx cmd) h ctx cmd ids w \<noteq> None"
  using assms(2)
proof (induction ids arbitrary: w)
  case Nil
  show ?case by simp
next
  case (Cons idtf ids)
  let ?c = "HelperFindBySystemIdtf ctx idtf"
  from Cons.prems have rest: "\<forall>idtf\<in>set ids. validated ctx (HelperFindBySystemIdtf ctx idtf) \<longrightarrow>
             (\<forall>w. \<exists>n. InstallDependencies (Execute n h ctx cmd) ctx cmd
                          (HelperFindBySystemIdtf ctx idtf) w \<noteq> None)"
    by (meson list.set_intros(2))
  show ?case
  proof (cases "validated ctx ?c")
    case False
    from Execute_for_rejected [OF this, of h cmd ids w] obtain w' where
      w': "\<And>exec. Execute_for exec h ctx cmd (idtf # ids) w = Execute_for exec h ctx cmd ids w'"
      by blast
    from Cons.IH [OF rest, of w'] show ?thesis
      by (simp only: w')
  next
    case True
    let ?w3 = "add_log (accepted_log idtf) w"
    from Cons.prems True obtain n1 x where
      x: "InstallDependencies (Execute n1 h ctx cmd) ctx cmd ?c ?w3 = Some x"
      by fastforce
    show ?thesis
    proof (cases x)
      case (Inl ex)
      with x True have "Execute_for (Execute n1 h ctx cmd) h ctx cmd (idtf # ids) w \<noteq> None"
        by (simp add: Execute_for_validated del: Execute_for.simps)
      then show ?thesis by blast
    next
      case (Inr pw)
      obtain p w4 where pw: "pw = (p, w4)" by (cases pw)
      from DownloadComponent_returns [OF assms(1), of ctx cmd ?c w4] obtain y where
        y: "DownloadComponent h ctx cmd ?c w4 = Some y" by blast
      show ?thesis
      proof (cases y)
        case (Inl ex)
        with x Inr pw y True
        have "Execute_for (Execute n1 h ctx cmd) h ctx cmd (idtf # ids) w \<noteq> None"
          by (simp add: Execute_for_validated del: Execute_for.simps)
        then show ?thesis by blast
      next
        case y': (Inr w5)
        from Cons.IH [OF rest, of w5] obtain n2 z where
          z: "Execute_for (Execute n2 h ctx cmd) h ctx cmd ids w5 = Some z"
          by fastforce
        let ?n = "max n1 n2"
        have "InstallDependencies (Execute ?n h ctx cmd) ctx cmd ?c ?w3 = Some x"
          using InstallDependencies_mono [OF Execute_mono x, of ?n] by simp
        moreover have "Execute_for (Execute ?n h ctx cmd) h ctx cmd ids w5 = Some z"
          using Execute_for_mono [OF Execute_mono z, of ?n] by simp
        ultimately
        have "Execute_for (Execute ?n h ctx cmd) h ctx cmd (idtf # ids) w \<noteq> None"
          using Inr pw y y' True
          by (simp add: Execute_for_validated del: Execute_for.simps)
        then show ?thesis by blast
      qed
    qed
  qed
qed

lemma Execute_single_returns:
  assumes "Execute_for (Execute n h ctx cmd) h ctx cmd ids w \<noteq> None"
      and "commandParameters (PARAMETER_NAME cmd) = Some ids"
  shows "Execute (Suc n) h ctx cmd commandParameters w \<noteq> None"
  using assms by (auto simp add: Execute_body_def split: option.splits sum.splits)

lemma InstallDependencies_returns:
  assumes free: "always_free_name h"
      and wf: "wf (reachable_dependency_graph ctx roots)"
      and reach: "\<exists>r\<in>roots. (c, r) \<in> (dependency_graph ctx)\<^sup>*"
      and v: "validated ctx c"
  shows "\<exists>n. InstallDependencies (Execute n h ctx cmd) ctx cmd c w \<noteq> None"
  using wf reach v
proof (induction c arbitrary: w rule: wf_induct_rule)
  case (less c)
  have deps: "\<forall>d\<in>set (component_dependencies ctx c). \<forall>w. \<exists>n.
                Execute n h ctx cmd [PARAMETER_NAME cmd \<mapsto> [HelperGetSystemIdtf ctx d]] w \<noteq> None"
  proof (intro ballI allI)
    fix d and w :: "'a world"
    assume d: "d \<in> set (component_dependencies ctx c)"
    let ?idtf = "HelperGetSystemIdtf ctx d"
    let ?d' = "HelperFindBySystemIdtf ctx ?idtf"
    have edge: "(?d', c) \<in> dependency_graph ctx"
      using d less.prems(2) unfolding dependency_graph_def by blast
    with less.prems(1) have in_reach: "(?d', c) \<in> reachable_dependency_graph ctx roots"
      by (simp add: reachable_dependency_graph_def)
    from edge less.prems(1) have "\<exists>r\<in>roots. (?d', r) \<in> (dependency_graph ctx)\<^sup>*"
      by (meson converse_rtrancl_into_rtrancl)
    with in_reach less.IH
    have IH: "validated ctx ?d' \<longrightarrow>
                (\<forall>w. \<exists>n. InstallDependencies (Execute n h ctx cmd) ctx cmd ?d' w \<noteq> None)"
      by blast
    have "\<exists>n. Execute_for (Execute n h ctx cmd) h ctx cmd [?idtf] w \<noteq> None"
      by (rule Execute_for_returns [OF free]) (use IH in simp)
    then obtain n where "Execute_for (Execute n h ctx cmd) h ctx cmd [?idtf] w \<noteq> None" ..
    then have "Execute (Suc n) h ctx cmd [PARAMETER_NAME cmd \<mapsto> [?idtf]] w \<noteq> None"
      by (rule Execute_single_returns) simp
    then show "\<exists>n. Execute n h ctx cmd [PARAMETER_NAME cmd \<mapsto> [?idtf]] w \<noteq> None"
      by blast
  qed
  show ?case
    unfolding InstallDependencies_eq by (rule InstallDependencies_for_returns [OF deps])
qed

text \<open>
  In the other direction: \<^verbatim>\<open>Execute\<close> returns when the graph of all dependencies reachable
  from the requested components is finite and acyclic and the host always has a free name
  for a staging directory.
\<close>

lemma Execute_returns_if_acyclic:
  assumes "finite (reachable_dependency_graph ctx (requested_components ctx cmd commandParameters))"
      and "acyclic (reachable_dependency_graph ctx (requested_components ctx cmd commandParameters))"
      and free: "always_free_name h"
  shows "\<exists>n. Execute n h ctx cmd commandParameters w \<noteq> None"
proof (cases "commandParameters (PARAMETER_NAME cmd)")
  case None
  then have "Execute (Suc 0) h ctx cmd commandParameters w \<noteq> None"
    by (simp add: Execute_body_def)
  then show ?thesis by blast
next
  case (Some ids)
  let ?roots = "requested_components ctx cmd commandParameters"
  from assms(1,2) have wf: "wf (reachable_dependency_graph ctx ?roots)"
    by (rule finite_acyclic_wf)
  have "\<forall>idtf\<in>set ids. validated ctx (HelperFindBySystemIdtf ctx idtf) \<longrightarrow>
          (\<forall>w. \<exists>n. InstallDependencies (Execute n h ctx cmd) ctx cmd
                       (HelperFindBySystemIdtf ctx idtf) w \<noteq> None)"
  proof (intro ballI impI allI)
    fix idtf and w :: "'a world"
    assume "idtf \<in> set ids" and v: "validated ctx (HelperFindBySystemIdtf ctx idtf)"
    then have "HelperFindBySystemIdtf ctx idtf \<in> ?roots"
      using Some by (simp add: requested_components_def)
    then have "\<exists>r\<in>?roots. (HelperFindBySystemIdtf ctx idtf, r) \<in> (dependency_graph ctx)\<^sup>*"
      by blast
    from InstallDependencies_returns [OF free wf this v]
    show "\<exists>n. InstallDependencies (Execute n h ctx cmd) ctx cmd
                 (HelperFindBySystemIdtf ctx idtf) w \<noteq> None" .
  qed
  from Execute_for_returns [OF free this] obtain n where
    "Execute_for (Execute n h ctx cmd) h ctx cmd ids w \<noteq> None" ..
  from Execute_single_returns [of n h ctx cmd ids w commandParameters, OF this Some]
  show ?thesis by blast
qed

lemma cyclic_store_facts:
  "HelperFindBySystemIdtf cyclic_store ''A'' = 1"
  "HelperFindBySystemIdtf cyclic_store ''B'' = 2"
  "HelperGetSystemIdtf cyclic_store 1 = ''A''"
  "HelperGetSystemIdtf cyclic_store 2 = ''B''"
  "validated cyclic_store 1"
  "validated cyclic_store 2"
  "component_dependencies cyclic_store 1 = [2]"
  "component_dependencies cyclic_store 2 = [1]"
  by (simp_all add: cyclic_store_def example_defs validated_def component_dependencies_def
        example_dependencies_def)

lemma cyclic_store_diverges:
  "Execute n h cyclic_store cmd [PARAMETER_NAME cmd \<mapsto> [''A'']] w = None
   \<and> Execute n h cyclic_store cmd [PARAMETER_NAME cmd \<mapsto> [''B'']] w = None"
proof (induction n arbitrary: w)
  case 0
  show ?case by simp
next
  case (Suc n)
  have va: "validated cyclic_store (HelperFindBySystemIdtf cyclic_store ''A'')"
    by (simp only: cyclic_store_facts)
  have vb: "validated cyclic_store (HelperFindBySystemIdtf cyclic_store ''B'')"
    by (simp only: cyclic_store_facts)
  have a: "Execute_for (Execute n h cyclic_store cmd) h cyclic_store cmd [''A''] w = None"
    apply (subst Execute_for_validated [OF va])
    apply (simp only: InstallDependencies_eq cyclic_store_facts InstallDependencies_for_Cons Suc)
    apply simp
    done
  have b: "Execute_for (Execute n h cyclic_store cmd) h cyclic_store cmd [''B''] w = None"
    apply (subst Execute_for_validated [OF vb])
    apply (simp only: InstallDependencies_eq cyclic_store_facts InstallDependencies_for_Cons Suc)
    apply simp
    done
  from a b show ?case by (simp add: Execute_body_def)
qed

lemma length_staging_name: "segment \<noteq> [] \<Longrightarrow> k < length (staging_name root segment k)"
proof -
  assume "segment \<noteq> []"
  then have "1 \<le> length segment" by (cases segment) simp_all
  then have "Suc k * 1 \<le> Suc k * length segment" by (rule mult_le_mono2)
  then show ?thesis
    by (simp add: staging_name_def length_concat sum_list_replicate)
qed

lemma always_free_name_example_host: "always_free_name example_host"
  unfolding always_free_name_def
proof (intro allI impI)
  fix d :: "string list" and root segment :: string
  assume seg: "segment \<noteq> []"
  let ?k = "sum_list (map length d)"
  have "staging_name root segment ?k \<notin> set d"
  proof
    assume "staging_name root segment ?k \<in> set d"
    then have "length (staging_name root segment ?k) \<in> set (map length d)" by simp
    then have "length (staging_name root segment ?k) \<le> ?k"
      by (auto intro: member_le_sum_list)
    with length_staging_name [OF seg, of ?k root] show False by simp
  qed
  then show "\<exists>k. \<not> stat_ok example_host d (staging_name root segment k)"
    by (auto simp add: example_host_def)
qed

lemma first_dependency_graph_edge:
  "(c, c') \<in> first_dependency_graph ctx \<Longrightarrow>
   validated ctx c
   \<and> (\<exists>d ds. component_dependencies ctx c = d # ds
              \<and> c' = HelperFindBySystemIdtf ctx (HelperGetSystemIdtf ctx d))"
  unfolding first_dependency_graph_def by blast

lemma Execute_diverges_on_closed_set:
  assumes closed: "\<forall>c\<in>D. validated ctx c
             \<and> (\<exists>d ds. component_dependencies ctx c = d # ds
                        \<and> HelperFindBySystemIdtf ctx (HelperGetSystemIdtf ctx d) \<in> D)"
  shows "HelperFindBySystemIdtf ctx idtf \<in> D \<Longrightarrow>
         Execute n h ctx cmd [PARAMETER_NAME cmd \<mapsto> [idtf]] w = None"
proof (induction n arbitrary: idtf w)
  case 0
  show ?case by simp
next
  case (Suc n)
  let ?c = "HelperFindBySystemIdtf ctx idtf"
  from closed Suc.prems obtain d ds where v: "validated ctx ?c"
    and deps: "component_dependencies ctx ?c = d # ds"
    and next_in: "HelperFindBySystemIdtf ctx (HelperGetSystemIdtf ctx d) \<in> D"
    by blast
  have rec: "Execute n h ctx cmd [PARAMETER_NAME cmd \<mapsto> [HelperGetSystemIdtf ctx d]] w' = None"
    for w'
    using next_in by (rule Suc.IH)
  have "InstallDependencies (Execute n h ctx cmd) ctx cmd ?c w' = None" for w'
    by (simp only: InstallDependencies_eq deps InstallDependencies_for_Cons rec option.case)
  then have "Execute_for (Execute n h ctx cmd) h ctx cmd [idtf] w = None"
    by (simp only: Execute_for_validated [OF v] option.case)
  then show ?case
    by (simp add: Execute_body_def)
qed

lemma first_dependency_cycle_closed_set:
  assumes "\<not> acyclic (reachable_first_dependency_graph ctx r)"
  shows "\<exists>D. r \<in> D
           \<and> (\<forall>c\<in>D. validated ctx c
                 \<and> (\<exists>d ds. component_dependencies ctx c = d # ds
                            \<and> HelperFindBySystemIdtf ctx (HelperGetSystemIdtf ctx d) \<in> D))"
proof -
  let ?G = "first_dependency_graph ctx"
  let ?R = "reachable_first_dependency_graph ctx r"
  from assms obtain x where cyc: "(x, x) \<in> ?R\<^sup>+"
    unfolding acyclic_def by blast
  have sub: "?R \<subseteq> ?G"
    by (auto simp add: reachable_first_dependency_graph_def)
  from cyc have xx: "(x, x) \<in> ?G\<^sup>+"
    using trancl_mono [OF _ sub] by blast
  from cyc obtain z where "(x, z) \<in> ?R"
    by (meson tranclD)
  then have rx: "(r, x) \<in> ?G\<^sup>*"
    by (simp add: reachable_first_dependency_graph_def)
  let ?D = "{c. (c, x) \<in> ?G\<^sup>*}"
  have step: "\<exists>z. (c, z) \<in> ?G \<and> z \<in> ?D" if "c \<in> ?D" for c
  proof (cases "c = x")
    case True
    from xx obtain z where "(x, z) \<in> ?G" "(z, x) \<in> ?G\<^sup>*"
      by (meson tranclD)
    with True show ?thesis by blast
  next
    case False
    from that have "(c, x) \<in> ?G\<^sup>*" by simp
    with False obtain z where "(c, z) \<in> ?G" "(z, x) \<in> ?G\<^sup>*"
      by (meson converse_rtranclE)
    then show ?thesis by blast
  qed
  have closed: "\<forall>c\<in>?D. validated ctx c
             \<and> (\<exists>d ds. component_dependencies ctx c = d # ds
                        \<and> HelperFindBySystemIdtf ctx (HelperGetSystemIdtf ctx d) \<in> ?D)"
  proof
    fix c assume "c \<in> ?D"
    from step [OF this] obtain z where z: "(c, z) \<in> ?G" "z \<in> ?D" by blast
    from first_dependency_graph_edge [OF z(1)] z(2)
    show "validated ctx c
             \<and> (\<exists>d ds. component_dependencies ctx c = d # ds
                        \<and> HelperFindBySystemIdtf ctx (HelperGetSystemIdtf ctx d) \<in> ?D)"
      by blast
  qed
  from rx have rD: "r \<in> ?D" by simp
  show ?thesis
    by (rule exI [of _ ?D], rule conjI, rule rD, rule closed)
qed

lemma Execute_diverges_on_first_dependency_cycle:
  assumes "\<not> acyclic (reachable_first_dependency_graph ctx (HelperFindBySystemIdtf ctx idtf))"
  shows "Execute n h ctx cmd [PARAMETER_NAME cmd \<mapsto> [idtf]] w = None"
proof -
  from first_dependency_cycle_closed_set [OF assms] obtain D where
    "HelperFindBySystemIdtf ctx idtf \<in> D"
    "\<forall>c\<in>D. validated ctx c
        \<and> (\<exists>d ds. component_dependencies ctx c = d # ds
                   \<and> HelperFindBySystemIdtf ctx (HelperGetSystemIdtf ctx d) \<in> D)"
    by blast
  from this(2,1) show ?thesis by (rule Execute_diverges_on_closed_set)
qed

lemma InstallDependencies_diverges_on_first_dependency_cycle:
  assumes "\<not> acyclic (reachable_first_dependency_graph ctx c)"
  shows "validated ctx c \<and> InstallDependencies (Execute n h ctx cmd) ctx cmd c w = None"
proof -
  from first_dependency_cycle_closed_set [OF assms] obtain D where c: "c \<in> D"
    and closed: "\<forall>c\<in>D. validated ctx c
        \<and> (\<exists>d ds. component_dependencies ctx c = d # ds
                   \<and> HelperFindBySystemIdtf ctx (HelperGetSystemIdtf ctx d) \<in> D)"
    by blast
  from closed c obtain d ds where v: "validated ctx c"
    and deps: "component_dependencies ctx c = d # ds"
    and next_in: "HelperFindBySystemIdtf ctx (HelperGetSystemIdtf ctx d) \<in> D"
    by blast
  have rec: "Execute n h ctx cmd [PARAMETER_NAME cmd \<mapsto> [HelperGetSystemIdtf ctx d]] w' = None"
    for w'
    using closed next_in by (rule Execute_diverges_on_closed_set)
  have "InstallDependencies (Execute n h ctx cmd) ctx cmd c w = None"
    by (simp only: InstallDependencies_eq deps InstallDependencies_for_Cons rec option.case)
  with v show ?thesis by blast
qed

lemma Execute_for_returns_only_without_cycle:
  "Execute_for (Execute n h ctx cmd) h ctx cmd ids w = Some (Inr w') \<Longrightarrow>
   idtf \<in> set ids \<Longrightarrow>
   acyclic (reachable_first_dependency_graph ctx (HelperFindBySystemIdtf ctx idtf))"
proof (induction ids arbitrary: w)
  case Nil
  then show ?case by simp
next
  case (Cons i ids)
  let ?c = "HelperFindBySystemIdtf ctx i"
  have rest: "\<exists>w1. Execute_for (Execute n h ctx cmd) h ctx cmd ids w1 = Some (Inr w')"
    and here: "acyclic (reachable_first_dependency_graph ctx ?c)"
  proof -
    show "\<exists>w1. Execute_for (Execute n h ctx cmd) h ctx cmd ids w1 = Some (Inr w')"
    proof (cases "validated ctx ?c")
      case False
      from Execute_for_rejected [OF this, of h cmd ids w] obtain w1 where
        w1: "\<And>exec. Execute_for exec h ctx cmd (i # ids) w = Execute_for exec h ctx cmd ids w1"
        by blast
      from Cons.prems(1) have "Execute_for (Execute n h ctx cmd) h ctx cmd ids w1 = Some (Inr w')"
        by (simp only: w1)
      then show ?thesis by (rule exI)
    next
      case True
      with Cons.prems(1) show ?thesis
        by (auto simp add: Execute_for_validated simp del: Execute_for.simps
              split: option.splits sum.splits)
    qed
    show "acyclic (reachable_first_dependency_graph ctx ?c)"
    proof (rule ccontr)
      assume "\<not> acyclic (reachable_first_dependency_graph ctx ?c)"
      from InstallDependencies_diverges_on_first_dependency_cycle
             [OF this, of n h cmd "add_log (accepted_log i) w"]
      have v: "validated ctx ?c"
        and d: "InstallDependencies (Execute n h ctx cmd) ctx cmd ?c
                  (add_log (accepted_log i) w) = None"
        by blast+
      have "Execute_for (Execute n h ctx cmd) h ctx cmd (i # ids) w = None"
        by (simp only: Execute_for_validated [OF v] d option.case)
      with Cons.prems(1) show False by simp
    qed
  qed
  from Cons.prems(2) have "idtf = i \<or> idtf \<in> set ids" by simp
  then show ?case
  proof
    assume "idtf = i"
    with here show ?thesis by simp
  next
    assume "idtf \<in> set ids"
    with rest Cons.IH show ?thesis by blast
  qed
qed

lemma Execute_returns_only_without_first_dependency_cycle:
  assumes "Execute n h ctx cmd commandParameters w = Some (Inr (plan, w'))"
      and "commandParameters (PARAMETER_NAME cmd) = Some ids"
      and "idtf \<in> set ids"
  shows "acyclic (reachable_first_dependency_graph ctx (HelperFindBySystemIdtf ctx idtf))"
proof (cases n)
  case 0
  with assms(1) show ?thesis by simp
next
  case (Suc m)
  with assms(1,2) have "Execute_for (Execute m h ctx cmd) h ctx cmd ids w = Some (Inr w')"
    by (auto simp add: Execute_body_def split: option.splits sum.splits)
  from Execute_for_returns_only_without_cycle [OF this assms(3)] show ?thesis .
qed

text \<open>
  Claim C5, amended. Nothing in \<^verbatim>\<open>Execute\<close> or \<^verbatim>\<open>InstallDependencies\<close> bounds the recursion or
  remembers the components on the way. In the store where the validated components \<open>A\<close>
  and \<open>B\<close> depend on each other, the install of \<open>A\<close> returns for no depth of recursion;
  and so it is in every store, on every host and from every state, when the first
  dependencies of validated components form a cycle that can be reached from the requested
  component. The install of a component returns, normally or with an exception, only when
  the graph of first dependencies reachable from it is acyclic.
\<close>

theorem Execute_diverges_on_dependency_cycle:
  "(validated cyclic_store 1 \<and> validated cyclic_store 2
      \<and> component_dependencies cyclic_store 1 = [2]
      \<and> component_dependencies cyclic_store 2 = [1]
      \<and> (\<forall>n. Execute n h cyclic_store cmd [PARAMETER_NAME cmd \<mapsto> [''A'']] w = None))
   \<and> (\<not> acyclic (reachable_first_dependency_graph ctx (HelperFindBySystemIdtf ctx idtf))
      \<longrightarrow> (\<forall>n. Execute n h ctx cmd [PARAMETER_NAME cmd \<mapsto> [idtf]] w = None))
   \<and> ((\<exists>n. Execute n h ctx cmd [PARAMETER_NAME cmd \<mapsto> [idtf]] w \<noteq> None)
      \<longrightarrow> acyclic (reachable_first_dependency_graph ctx (HelperFindBySystemIdtf ctx idtf)))"
proof (intro conjI allI impI)
  show "validated cyclic_store 1" "validated cyclic_store 2"
    "component_dependencies cyclic_store 1 = [2]" "component_dependencies cyclic_store 2 = [1]"
    by (simp_all only: cyclic_store_facts)
  show "Execute n h cyclic_store cmd [PARAMETER_NAME cmd \<mapsto> [''A'']] w = None" for n
    using cyclic_store_diverges [of n h cmd w] by (rule conjunct1)
  show "Execute n h ctx cmd [PARAMETER_NAME cmd \<mapsto> [idtf]] w = None"
    if "\<not> acyclic (reachable_first_dependency_graph ctx (HelperFindBySystemIdtf ctx idtf))" for n
    using that by (rule Execute_diverges_on_first_dependency_cycle)
  show "acyclic (reachable_first_dependency_graph ctx (HelperFindBySystemIdtf ctx idtf))"
    if ret: "\<exists>n. Execute n h ctx cmd [PARAMETER_NAME cmd \<mapsto> [idtf]] w \<noteq> None"
  proof (rule ccontr)
    assume "\<not> acyclic (reachable_first_dependency_graph ctx (HelperFindBySystemIdtf ctx idtf))"
    then have div: "Execute n h ctx cmd [PARAMETER_NAME cmd \<mapsto> [idtf]] w = None" for n
      by (rule Execute_diverges_on_first_dependency_cycle)
    from ret obtain n where n: "Execute n h ctx cmd [PARAMETER_NAME cmd \<mapsto> [idtf]] w \<noteq> None"
      by (rule exE)
    from n div [of n] show False by (rule notE)
  qed
qed

lemma lasso_store_facts:
  "HelperFindBySystemIdtf lasso_store ''A'' = 1"
  "HelperFindBySystemIdtf lasso_store (HelperGetSystemIdtf lasso_store 2) = 2"
  "validated lasso_store 1"
  "validated lasso_store 2"
  "component_dependencies lasso_store 1 = [2, 4]"
  "component_dependencies lasso_store 2 = [2]"
  by (simp_all add: lasso_store_def example_defs validated_def component_dependencies_def
        example_dependencies_def)

lemma lasso_store_cycle:
  "\<not> acyclic (reachable_first_dependency_graph lasso_store
                  (HelperFindBySystemIdtf lasso_store ''A''))"
proof -
  let ?G = "first_dependency_graph lasso_store"
  have "(1, HelperFindBySystemIdtf lasso_store (HelperGetSystemIdtf lasso_store 2)) \<in> ?G"
    unfolding first_dependency_graph_def using lasso_store_facts(3,5) by blast
  then have e12: "(1, 2) \<in> ?G" by (simp only: lasso_store_facts)
  have "(2, HelperFindBySystemIdtf lasso_store (HelperGetSystemIdtf lasso_store 2)) \<in> ?G"
    unfolding first_dependency_graph_def using lasso_store_facts(4,6) by blast
  then have e22: "(2, 2) \<in> ?G" by (simp only: lasso_store_facts)
  from e12 have "(1, 2) \<in> ?G\<^sup>*" by (rule r_into_rtrancl)
  with e22 have "(2, 2) \<in> reachable_first_dependency_graph lasso_store 1"
    by (simp add: reachable_first_dependency_graph_def)
  then have "(2, 2) \<in> (reachable_first_dependency_graph lasso_store 1)\<^sup>+"
    by (rule r_into_trancl)
  then have "\<not> acyclic (reachable_first_dependency_graph lasso_store 1)"
    unfolding acyclic_def by blast
  then show ?thesis unfolding lasso_store_facts(1) .
qed

lemma chain_store_returns:
  "Execute (Suc (Suc 0)) example_host chain_store example_command
     [PARAMETER_NAME example_command \<mapsto> [''A'']] example_world \<noteq> None"
  by (simp add: chain_store_def InstallDependencies_def try_ScException_eq
        ValidateComponent_eq Execute_body_def DownloadComponent_eq SC_LOG_eq add_log_add_log
        example_exec_defs Let_def)

theorem Execute_diverges_on_dependency_cycle_witness:
  "\<not> acyclic (reachable_first_dependency_graph lasso_store
                  (HelperFindBySystemIdtf lasso_store ''A''))
   \<and> (\<forall>n. Execute n example_host lasso_store example_command
              [PARAMETER_NAME example_command \<mapsto> [''A'']] example_world = None)
   \<and> (\<exists>n. Execute n example_host chain_store example_command
              [PARAMETER_NAME example_command \<mapsto> [''A'']] example_world \<noteq> None)
   \<and> acyclic (reachable_first_dependency_graph chain_store
                 (HelperFindBySystemIdtf chain_store ''A''))"
proof -
  note h1 = lasso_store_cycle
  have h2: "\<exists>n. Execute n example_host chain_store example_command
              [PARAMETER_NAME example_command \<mapsto> [''A'']] example_world \<noteq> None"
    using chain_store_returns by blast
  show ?thesis
    using h1 h2
      Execute_diverges_on_dependency_cycle
        [of example_host example_command example_world lasso_store "''A''"]
      Execute_diverges_on_dependency_cycle
        [of example_host example_command example_world chain_store "''A''"]
    by blast
qed

text \<open>
  Claim C5 as it is written has \<^verbatim>\<open>Execute\<close> return only for an acyclic graph. Here \<open>A\<close>
  depends on \<open>C\<close> and on itself; the install of \<open>C\<close> is rejected and gives the empty plan,
  the loop of \<^verbatim>\<open>InstallDependencies\<close> ends there, the dependency of \<open>A\<close> on itself is never
  followed, and \<^verbatim>\<open>Execute\<close> returns.
\<close>

theorem Execute_returns_with_cycle:
  "Execute (Suc (Suc 0)) example_host skipped_cycle_store example_command
     [''idtf'' \<mapsto> [''A'']] example_world \<noteq> None
   \<and> validated skipped_cycle_store 1
   \<and> (1, 1) \<in> reachable_dependency_graph skipped_cycle_store
                (requested_components skipped_cycle_store example_command
                   [''idtf'' \<mapsto> [''A'']])
   \<and> \<not> acyclic (reachable_dependency_graph skipped_cycle_store
                   (requested_components skipped_cycle_store example_command
                      [''idtf'' \<mapsto> [''A'']]))"
proof -
  let ?G = "reachable_dependency_graph skipped_cycle_store
              (requested_components skipped_cycle_store example_command [''idtf'' \<mapsto> [''A'']])"
  have run: "Execute (Suc (Suc 0)) example_host skipped_cycle_store example_command
               [''idtf'' \<mapsto> [''A'']] example_world \<noteq> None"
    by (simp add: skipped_cycle_store_def InstallDependencies_def try_ScException_eq
          ValidateComponent_eq Execute_body_def DownloadComponent_eq SC_LOG_eq add_log_add_log
          example_exec_defs Let_def)
  have v: "validated skipped_cycle_store 1"
    by (simp add: skipped_cycle_store_def example_exec_defs)
  have d: "1 \<in> set (component_dependencies skipped_cycle_store 1)"
    by (simp add: skipped_cycle_store_def component_dependencies_def example_exec_defs)
  have i: "HelperFindBySystemIdtf skipped_cycle_store (HelperGetSystemIdtf skipped_cycle_store 1) = 1"
    by (simp add: skipped_cycle_store_def example_store_def)
  have "(HelperFindBySystemIdtf skipped_cycle_store (HelperGetSystemIdtf skipped_cycle_store 1), 1)
          \<in> dependency_graph skipped_cycle_store"
    unfolding dependency_graph_def using v d by blast
  then have e: "(1, 1) \<in> dependency_graph skipped_cycle_store"
    by (simp only: i)
  have r: "1 \<in> requested_components skipped_cycle_store example_command [''idtf'' \<mapsto> [''A'']]"
    by (simp add: requested_components_def skipped_cycle_store_def example_store_def
          example_command_def)
  have g: "(1, 1) \<in> ?G"
    unfolding reachable_dependency_graph_def using e r by blast
  then have "(1, 1) \<in> ?G\<^sup>+" by (rule r_into_trancl)
  then have "\<not> acyclic ?G" unfolding acyclic_def by blast
  with run v g show ?thesis by blast
qed

end
